theory Spec2Isabelle
  imports Main "HOL-Library.Sublist"
begin

section \<open>Library stand-ins\<close>

text \<open>
  \<^verbatim>\<open>strings.Split(s, sep)\<close> of the Go standard library, for the one-byte separators the
  code uses (\<^verbatim>\<open>":"\<close> and \<^verbatim>\<open>"@"\<close>): the fields between the occurrences of the separator;
  a string without the separator is its own single field.
\<close>

fun Split :: "string \<Rightarrow> char \<Rightarrow> string list" where
  "Split [] c = [[]]"
| "Split (x # xs) c =
     (if x = c then [] # Split xs c
      else (case Split xs c of [] \<Rightarrow> [[x]] | t # ts \<Rightarrow> (x # t) # ts))"

text \<open>\<^verbatim>\<open>strings.HasPrefix(s, prefix)\<close> and \<^verbatim>\<open>strings.Contains(s, substr)\<close>.\<close>

definition HasPrefix :: "string \<Rightarrow> string \<Rightarrow> bool" where
  "HasPrefix s p = prefix p s"

fun Contains :: "string \<Rightarrow> string \<Rightarrow> bool" where
  "Contains [] substr = (substr = [])"
| "Contains (x # xs) substr = (prefix substr (x # xs) \<or> Contains xs substr)"

text \<open>
  The \<^verbatim>\<open>regexp\<close> package is outside the repository. It is a parameter: \<^verbatim>\<open>regexp.Compile\<close>
  maps a pattern to \<^verbatim>\<open>None\<close> (a compile error) or to the \<^verbatim>\<open>MatchString\<close> predicate of the
  compiled expression.
\<close>

type_synonym regexp = "string \<Rightarrow> (string \<Rightarrow> bool) option"

text \<open>
  An instance of the parameter for evaluating concrete inputs: on a pattern of letters,
  digits and \<^verbatim>\<open>-\<close> only, Go's \<^verbatim>\<open>MatchString\<close> holds exactly of the strings containing the
  pattern; every other pattern is left to fail here.
\<close>

definition literal_char :: "char \<Rightarrow> bool" where
  "literal_char c =
     (c \<in> set ''abcdefghijklmnopqrstuvwxyzABCDEFGHIJKLMNOPQRSTUVWXYZ0123456789-'')"

definition literal_regexp :: regexp where
  "literal_regexp p = (if list_all literal_char p then Some (\<lambda>s. Contains s p) else None)"

text \<open>
  \<^verbatim>\<open>*client.GVR\<close>: the code uses the three package-level values \<^verbatim>\<open>client.CoGVR\<close>,
  \<^verbatim>\<open>client.CmGVR\<close> and \<^verbatim>\<open>client.SecGVR\<close>; any other resource is named by its string.
\<close>

datatype GVR = CoGVR | CmGVR | SecGVR | OtherGVR string

text \<open>
  \<^verbatim>\<open>os.Stat\<close> and \<^verbatim>\<open>os.ReadFile\<close> fail with a \<^verbatim>\<open>*fs.PathError\<close>, which carries the
  operation, the path it was given and the underlying cause; \<^verbatim>\<open>errors.Is(err, fs.ErrNotExist)\<close>
  holds exactly when the cause is \<^verbatim>\<open>ErrNotExist\<close>.
\<close>

datatype errno = ErrNotExist | ErrPermission | ErrOther string

section \<open>Package config: view settings\<close>

record ViewSetting =
  Columns :: "string list"
  SortColumn :: string

text \<open>The two errors of \<^verbatim>\<open>SortCol\<close>, the second with the \<^verbatim>\<open>SortColumn\<close> it quotes.\<close>

datatype sort_error =
    NoSortColumn  \<comment> \<open>\<^verbatim>\<open>no sort column specified\<close>\<close>
  | InvalidSortColumn string  \<comment> \<open>\<^verbatim>\<open>invalid sort column spec: %q. must be col-name:asc|desc\<close>\<close>

text \<open>The receiver of \<^verbatim>\<open>SortCol\<close> is a pointer: \<^verbatim>\<open>None\<close> is the nil receiver.\<close>

definition SortCol :: "ViewSetting option \<Rightarrow> sort_error + (string \<times> bool)" where
  "SortCol v =
     (case v of
        None \<Rightarrow> Inl NoSortColumn
      | Some vs \<Rightarrow>
          if SortColumn vs = [] then Inl NoSortColumn
          else (let tt = Split (SortColumn vs) CHR '':'' in
                if length tt < 2 then Inl (InvalidSortColumn (SortColumn vs))
                else Inr (tt ! 0, tt ! 1 = ''asc'')))"

section \<open>The diagnostic log and the observable effects\<close>

text \<open>
  \<^verbatim>\<open>slog\<close> writes to the process-wide default logger. An entry is its level, its message
  and its attributes; the attribute keys are the constants of package \<^verbatim>\<open>slogs\<close>.
\<close>

datatype slog_level = Warn | Debug

datatype slogs_key = slogs_Path | slogs_Error | slogs_GVR | slogs_ID

datatype slog_value = AString string | AGVR GVR | AError string

datatype log_entry = Log slog_level string "(slogs_key \<times> slog_value) list"

text \<open>\<^verbatim>\<open>labels.Selector\<close>: \<^verbatim>\<open>labels.Everything()\<close> selects every object.\<close>

datatype selector = Everything | Restricted string

text \<open>
  A listener is an object behind the \<^verbatim>\<open>ViewConfigListener\<close> interface: its identity and
  what its \<^verbatim>\<open>GetNamespace\<close> method reports.
\<close>

datatype ViewConfigListener = Listener (ident: string) (GetNamespace: string)

text \<open>
  What a run leaves behind outside the values it returns: the log, the calls made to
  \<^verbatim>\<open>Factory.Get\<close> (resource, id, its boolean flag, selector), and the calls made to
  \<^verbatim>\<open>ViewSettingsChanged\<close> (the listener and the setting or nil it received), each in
  the order it happened.
\<close>

record world =
  slog :: "log_entry list"
  gets :: "(GVR \<times> string \<times> bool \<times> selector) list"
  notified :: "(ViewConfigListener \<times> ViewSetting option) list"

section \<open>Package config: the custom view registry\<close>

text \<open>
  The errors \<^verbatim>\<open>Load\<close> returns are the ones its libraries hand it: the \<^verbatim>\<open>*fs.PathError\<close> of
  \<^verbatim>\<open>os.ReadFile\<close> with its operation, path and cause, and the error of \<^verbatim>\<open>yaml.Unmarshal\<close>
  with its message.
\<close>

datatype load_error =
    PathError string string errno
  | YamlError string

record CustomView =
  Views :: "string \<rightharpoonup> ViewSetting"
  listeners :: "string \<rightharpoonup> ViewConfigListener"

text \<open>
  Everything a run depends on that lies outside the repository: the regular expression
  compiler, the file system as \<^verbatim>\<open>os.Stat\<close> and \<^verbatim>\<open>os.ReadFile\<close> see it (the error, if any;
  for \<^verbatim>\<open>ReadFile\<close> the failing operation with its cause, or the bytes), the schema
  validator applied to \<^verbatim>\<open>json.ViewsSchema\<close>, the YAML parser delivering the \<^verbatim>\<open>views\<close>
  mapping, and the order in which \<^verbatim>\<open>range\<close> visits the keys of a Go map, which the
  language leaves open: \<^verbatim>\<open>range_listeners\<close> for the loop of \<^verbatim>\<open>fireConfigChanged\<close>, and
  \<^verbatim>\<open>range_views gvr\<close> for the loop of the \<^verbatim>\<open>getVS\<close> call made for the listener of \<^verbatim>\<open>gvr\<close>.
\<close>

record env =
  regexp_Compile :: regexp
  os_Stat :: "string \<Rightarrow> errno option"
  os_ReadFile :: "string \<Rightarrow> (string \<times> errno) + string"
  Validate :: "string \<Rightarrow> string option"
  yaml_Unmarshal :: "string \<Rightarrow> string + (string \<rightharpoonup> ViewSetting)"
  range_listeners :: "string list"
  range_views :: "string \<Rightarrow> string list"

text \<open>A \<^verbatim>\<open>range\<close> over a map visits every key of the map exactly once.\<close>

definition enumerates :: "'k list \<Rightarrow> ('k \<rightharpoonup> 'v) \<Rightarrow> bool" where
  "enumerates ks m \<longleftrightarrow> distinct ks \<and> set ks = dom m"

text \<open>\<^verbatim>\<open>v.Views[key]\<close>: indexing a Go map gives the zero value at a missing key.\<close>

definition index_Views :: "(string \<rightharpoonup> ViewSetting) \<Rightarrow> string \<Rightarrow> ViewSetting" where
  "index_Views m key =
     (case m key of Some vs \<Rightarrow> vs | None \<Rightarrow> \<lparr>Columns = [], SortColumn = []\<rparr>)"

text \<open>
  The loop of \<^verbatim>\<open>getVS\<close> over the keys in the order \<^verbatim>\<open>range\<close> yields them. The \<^verbatim>\<open>break\<close>
  leaves the \<^verbatim>\<open>switch\<close> only, so the loop goes on with the next key.
\<close>

fun getVS_loop ::
  "regexp \<Rightarrow> (string \<rightharpoonup> ViewSetting) \<Rightarrow> string \<Rightarrow> string \<Rightarrow> string list \<Rightarrow> ViewSetting option"
where
  "getVS_loop rx views gvr k [] = None"
| "getVS_loop rx views gvr k (key # keys) =
     (if \<not> HasPrefix key gvr then getVS_loop rx views gvr k keys
      else if key = k then Some (index_Views views key)
      else if Contains key ''@'' then
        (let tt = Split key CHR ''@'' in
         if length tt \<noteq> 2 then getVS_loop rx views gvr k keys
         else (case rx (tt ! 1) of
                 None \<Rightarrow> getVS_loop rx views gvr k keys
               | Some MatchString \<Rightarrow>
                   if MatchString k then Some (index_Views views key)
                   else getVS_loop rx views gvr k keys))
      else getVS_loop rx views gvr k keys)"

definition getVS ::
  "regexp \<Rightarrow> CustomView \<Rightarrow> string list \<Rightarrow> string \<Rightarrow> string \<Rightarrow> ViewSetting option"
where
  "getVS rx v keys gvr ns =
     (let k = (if ns \<noteq> [] then gvr @ ''@'' @ ns else gvr)
      in getVS_loop rx (Views v) gvr k keys)"

definition ViewSettingsChanged :: "ViewConfigListener \<Rightarrow> ViewSetting option \<Rightarrow> world \<Rightarrow> world" where
  "ViewSettingsChanged l vs w = w\<lparr>notified := notified w @ [(l, vs)]\<rparr>"

definition slog_write :: "log_entry \<Rightarrow> world \<Rightarrow> world" where
  "slog_write e w = w\<lparr>slog := slog w @ [e]\<rparr>"

text \<open>One round of the loop of \<^verbatim>\<open>fireConfigChanged\<close>, for the listener under key \<^verbatim>\<open>gvr\<close>.\<close>

definition fire_one :: "env \<Rightarrow> CustomView \<Rightarrow> world \<Rightarrow> string \<Rightarrow> world" where
  "fire_one e v w gvr =
     (case listeners v gvr of
        None \<Rightarrow> w
      | Some list \<Rightarrow>
          (case getVS (regexp_Compile e) v (range_views e gvr) gvr (GetNamespace list) of
             None \<Rightarrow> ViewSettingsChanged list None w
           | Some vs \<Rightarrow>
               ViewSettingsChanged list (Some vs)
                 (slog_write (Log Debug ''Reloading custom view settings''
                                [(slogs_GVR, AString gvr)]) w)))"

definition fireConfigChanged :: "env \<Rightarrow> CustomView \<Rightarrow> world \<Rightarrow> world" where
  "fireConfigChanged e v w = foldl (fire_one e v) w (range_listeners e)"

definition AddListener ::
  "env \<Rightarrow> CustomView \<Rightarrow> string \<Rightarrow> ViewConfigListener \<Rightarrow> world \<Rightarrow> CustomView \<times> world"
where
  "AddListener e v gvr l w =
     (let v' = v\<lparr>listeners := (listeners v)(gvr \<mapsto> l)\<rparr>
      in (v', fireConfigChanged e v' w))"

definition Load ::
  "env \<Rightarrow> CustomView \<Rightarrow> string \<Rightarrow> world \<Rightarrow> load_error option \<times> CustomView \<times> world"
where
  "Load e v path w =
     (if (case os_Stat e path of Some err \<Rightarrow> err = ErrNotExist | None \<Rightarrow> False)
      then (None, v, w)
      else
        (case os_ReadFile e path of
           Inl (opn, err) \<Rightarrow> (Some (PathError opn path err), v, w)
         | Inr bb \<Rightarrow>
             (let w1 = (case Validate e bb of
                          Some err \<Rightarrow>
                            slog_write
                              (Log Warn ''Validation failed. Please update your config and restart!''
                                 [(slogs_Path, AString path), (slogs_Error, AError err)])
                              w
                        | None \<Rightarrow> w)
              in (case yaml_Unmarshal e bb of
                    Inl err \<Rightarrow> (Some (YamlError err), v, w1)
                  | Inr in_Views \<Rightarrow>
                      (let v' = v\<lparr>Views := in_Views\<rparr>
                       in (None, v', fireConfigChanged e v' w1))))))"

section \<open>Package xray: the tree of references\<close>

text \<open>
  Modelled from the spec: the type \<^verbatim>\<open>TreeNode\<close> is declared in a file of package \<^verbatim>\<open>xray\<close> that
  is not among the sources. By the spec a node has an identity (its kind and its fully
  qualified id), an ordered sequence of children that it owns, and a mapping \<^verbatim>\<open>Extras\<close> from
  string to string.
\<close>

datatype TreeNode =
  TreeNode (GVR: GVR) (ID: string) (Children: "TreeNode list") (Extras: "string \<rightharpoonup> string")

text \<open>
  Modelled from the spec: \<^verbatim>\<open>NewTreeNode\<close> is not among the sources. \<^verbatim>\<open>New(kind, id)\<close> gives a
  node with no children and empty \<^verbatim>\<open>Extras\<close>, and has no error.
\<close>

definition NewTreeNode :: "GVR \<Rightarrow> string \<Rightarrow> TreeNode" where
  "NewTreeNode gvr id' = TreeNode gvr id' [] Map.empty"

text \<open>
  Modelled from the spec: \<^verbatim>\<open>TreeNode.Add\<close> is not among the sources. \<^verbatim>\<open>Add(child)\<close> appends the
  child to the ordered sequence of children and makes no identity check.
\<close>

definition Add :: "TreeNode \<Rightarrow> TreeNode \<Rightarrow> TreeNode" where
  "Add t c = TreeNode (GVR t) (ID t) (Children t @ [c]) (Extras t)"

text \<open>
  Modelled from the spec: \<^verbatim>\<open>TreeNode.Find\<close> is not among the sources. \<^verbatim>\<open>Find(kind, id)\<close> answers
  whether this very parent already has this child: a lookup among the direct children,
  not a search of the whole tree, giving the existing node or none.
\<close>

definition Find :: "TreeNode \<Rightarrow> GVR \<Rightarrow> string \<Rightarrow> TreeNode option" where
  "Find t gvr id' = find (\<lambda>c. GVR c = gvr \<and> ID c = id') (Children t)"

text \<open>
  Modelled from the spec: the constants \<^verbatim>\<open>StatusKey\<close>, \<^verbatim>\<open>OkStatus\<close> and \<^verbatim>\<open>MissingRefStatus\<close> are
  not among the sources. The spec speaks of the node's status Extra and of the status
  values \<^verbatim>\<open>Ok\<close> and \<^verbatim>\<open>MissingRef\<close>.
\<close>

definition StatusKey :: string where
  "StatusKey = ''status''"

definition OkStatus :: string where
  "OkStatus = ''Ok''"

definition MissingRefStatus :: string where
  "MissingRefStatus = ''MissingRef''"

text \<open>\<^verbatim>\<open>n.Extras[key] = value\<close> on a node.\<close>

definition set_Extras :: "TreeNode \<Rightarrow> string \<Rightarrow> string \<Rightarrow> TreeNode" where
  "set_Extras n key val = TreeNode (GVR n) (ID n) (Children n) ((Extras n)(key \<mapsto> val))"

text \<open>
  \<^verbatim>\<open>dao.Factory\<close> is an interface onto the live cluster; the code calls its \<^verbatim>\<open>Get\<close> only, which
  returns an object or nil together with an error or nil.
\<close>

datatype runtime_Object = Object string

type_synonym Factory =
  "GVR \<Rightarrow> string \<Rightarrow> bool \<Rightarrow> selector \<Rightarrow> runtime_Object option \<times> string option"

text \<open>
  Pointers the source dereferences without a check are taken to be non-nil: the node and
  the factory handed to \<^verbatim>\<open>validate\<close>, and the node's \<^verbatim>\<open>Extras\<close>, which \<^verbatim>\<open>NewTreeNode\<close> allocates.
  \<^verbatim>\<open>optional\<close> is a \<^verbatim>\<open>*bool\<close>: \<^verbatim>\<open>None\<close> is nil. \<^verbatim>\<open>validate\<close> has no result in the source; the
  model returns the node and the world as the call leaves them.
\<close>

definition validate :: "Factory \<Rightarrow> TreeNode \<Rightarrow> bool option \<Rightarrow> world \<Rightarrow> TreeNode \<times> world" where
  "validate f n optional w =
     (let (res, err) = f (GVR n) (ID n) True Everything;
          w1 = w\<lparr>gets := gets w @ [(GVR n, ID n, True, Everything)]\<rparr>
      in if err \<noteq> None \<or> res = None then
           (if (case optional of None \<Rightarrow> True | Some b \<Rightarrow> \<not> b) then
              (set_Extras n StatusKey MissingRefStatus,
               slog_write (Log Warn ''Missing ref''
                             [(slogs_GVR, AGVR (GVR n)), (slogs_ID, AString (ID n))]) w1)
            else (n, w1))
         else (set_Extras n StatusKey OkStatus, w1))"

definition addRef ::
  "Factory \<Rightarrow> TreeNode \<Rightarrow> GVR \<Rightarrow> string \<Rightarrow> bool option \<Rightarrow> world \<Rightarrow> TreeNode \<times> world"
where
  "addRef f parent gvr id' optional w =
     (case Find parent gvr id' of
        None \<Rightarrow>
          (let (n, w') = validate f (NewTreeNode gvr id') optional w
           in (Add parent n, w'))
      | Some _ \<Rightarrow> (parent, w))"

text \<open>
  The parts of the Kubernetes types the renderer reads. \<^verbatim>\<open>SecretKeySelector\<close>,
  \<^verbatim>\<open>ConfigMapKeySelector\<close>, \<^verbatim>\<open>ConfigMapEnvSource\<close> and \<^verbatim>\<open>SecretEnvSource\<close> all carry a \<^verbatim>\<open>Name\<close>
  and an \<^verbatim>\<open>Optional *bool\<close>; a nil pointer to one of them is \<^verbatim>\<open>None\<close>.
\<close>

record ObjectRef =
  ref_Name :: string
  ref_Optional :: "bool option"

record v1_EnvVarSource =
  SecretKeyRef :: "ObjectRef option"
  ConfigMapKeyRef :: "ObjectRef option"

record v1_EnvVar =
  ValueFrom :: "v1_EnvVarSource option"

record v1_EnvFromSource =
  ConfigMapRef :: "ObjectRef option"
  SecretRef :: "ObjectRef option"

record v1_Container =
  Name :: string
  Env :: "v1_EnvVar list"
  EnvFrom :: "v1_EnvFromSource list"

text \<open>
  \<^verbatim>\<open>render.ContainerRes\<close>, of which \<^verbatim>\<open>Render\<close> reads the field \<^verbatim>\<open>Container\<close> only. The field is
  a \<^verbatim>\<open>*v1.Container\<close>: \<^verbatim>\<open>None\<close> is the nil pointer.
\<close>

record ContainerRes =
  Container :: "v1_Container option"

text \<open>
  \<^verbatim>\<open>client.FQN\<close> and \<^verbatim>\<open>client.Namespaced\<close> are declared outside the sources and the spec
  does not define them: they are parameters.
\<close>

record client =
  FQN :: "string \<Rightarrow> string \<Rightarrow> string"
  Namespaced :: "string \<Rightarrow> string \<times> string"

definition secretRefs ::
  "client \<Rightarrow> Factory \<Rightarrow> TreeNode \<Rightarrow> string \<Rightarrow> ObjectRef option \<Rightarrow> world \<Rightarrow> TreeNode \<times> world"
where
  "secretRefs cl f parent ns ref w =
     (case ref of
        None \<Rightarrow> (parent, w)
      | Some r \<Rightarrow> addRef f parent SecGVR (FQN cl ns (ref_Name r)) (ref_Optional r) w)"

definition configMapRefs ::
  "client \<Rightarrow> Factory \<Rightarrow> TreeNode \<Rightarrow> string \<Rightarrow> ObjectRef option \<Rightarrow> world \<Rightarrow> TreeNode \<times> world"
where
  "configMapRefs cl f parent ns ref w =
     (case ref of
        None \<Rightarrow> (parent, w)
      | Some r \<Rightarrow> addRef f parent CmGVR (FQN cl ns (ref_Name r)) (ref_Optional r) w)"

text \<open>The bodies of the two loops of \<^verbatim>\<open>envRefs\<close>, over \<^verbatim>\<open>co.Env\<close> and over \<^verbatim>\<open>co.EnvFrom\<close>.\<close>

definition env_body ::
  "client \<Rightarrow> Factory \<Rightarrow> string \<Rightarrow> TreeNode \<times> world \<Rightarrow> v1_EnvVar \<Rightarrow> TreeNode \<times> world"
where
  "env_body cl f ns pw e =
     (case ValueFrom e of
        None \<Rightarrow> pw
      | Some vf \<Rightarrow>
          (let (p1, w1) = secretRefs cl f (fst pw) ns (SecretKeyRef vf) (snd pw)
           in configMapRefs cl f p1 ns (ConfigMapKeyRef vf) w1))"

definition envFrom_body ::
  "client \<Rightarrow> Factory \<Rightarrow> string \<Rightarrow> TreeNode \<times> world \<Rightarrow> v1_EnvFromSource \<Rightarrow> TreeNode \<times> world"
where
  "envFrom_body cl f ns pw e =
     (let (p1, w1) =
            (case ConfigMapRef e of
               None \<Rightarrow> pw
             | Some r \<Rightarrow>
                 addRef f (fst pw) CmGVR (FQN cl ns (ref_Name r)) (ref_Optional r) (snd pw))
      in (case SecretRef e of
            None \<Rightarrow> (p1, w1)
          | Some r \<Rightarrow> addRef f p1 SecGVR (FQN cl ns (ref_Name r)) (ref_Optional r) w1))"

definition envRefs ::
  "client \<Rightarrow> Factory \<Rightarrow> TreeNode \<Rightarrow> string \<Rightarrow> v1_Container \<Rightarrow> world \<Rightarrow> TreeNode \<times> world"
where
  "envRefs cl f parent ns co w =
     foldl (envFrom_body cl f ns) (foldl (env_body cl f ns) (parent, w) (Env co)) (EnvFrom co)"

text \<open>
  The values \<^verbatim>\<open>Render\<close> meets behind \<^verbatim>\<open>any\<close>: its object argument and what \<^verbatim>\<open>ctx.Value\<close>
  returns, which is nil for a key the context does not hold. A value of type \<^verbatim>\<open>*TreeNode\<close>
  is a pointer, and \<^verbatim>\<open>TreeNodeV None\<close> is the nil pointer of that type: the type assertion
  accepts it. \<^verbatim>\<open>OtherV\<close> is a value of any other type, given by the name of that type.
\<close>

datatype any =
    ContainerResV ContainerRes
  | FactoryV Factory
  | TreeNodeV "TreeNode option"
  | NilV
  | OtherV string

datatype ctx_key = KeyFactory | KeyParent

type_synonym Context = "ctx_key \<Rightarrow> any"

text \<open>
  The three errors of \<^verbatim>\<open>Render\<close>, each with the value whose type \<^verbatim>\<open>%T\<close> prints:
  \<^verbatim>\<open>expected ContainerRes, but got %T\<close>, \<^verbatim>\<open>no factory found in context\<close> and
  \<^verbatim>\<open>expecting a TreeNode but got %T\<close>.
\<close>

datatype render_error =
    ExpectedContainerRes any
  | NoFactory
  | ExpectingTreeNode any

text \<open>
  How a call of \<^verbatim>\<open>Render\<close> ends: it returns nil or an error, or it panics on a nil pointer.
\<close>

datatype render_result =
    Returned "render_error option"
  | Panicked

text \<open>
  The parent is a pointer held by the context. \<^verbatim>\<open>parent.Add(root)\<close> changes the node it
  points to, so the model returns the context with the parent as the call leaves it,
  beside the result and the world. The source reads \<^verbatim>\<open>co.Container.Name\<close> after the factory
  check and before the parent check, and \<^verbatim>\<open>parent.ID\<close> right after the parent check: a nil
  \<^verbatim>\<open>co.Container\<close> panics there whatever the context holds under the parent key, and a nil
  \<^verbatim>\<open>*TreeNode\<close> under that key passes the type assertion and panics at \<^verbatim>\<open>parent.ID\<close>. Nothing
  has been changed when either panic happens.
\<close>

definition Render ::
  "client \<Rightarrow> Context \<Rightarrow> string \<Rightarrow> any \<Rightarrow> world \<Rightarrow> render_result \<times> Context \<times> world"
where
  "Render cl ctx ns ob w =
     (case ob of
        ContainerResV co \<Rightarrow>
          (case ctx KeyFactory of
             FactoryV f \<Rightarrow>
               (case Container co of
                  None \<Rightarrow> (Panicked, ctx, w)
                | Some container \<Rightarrow>
                    (let root = NewTreeNode CoGVR (FQN cl ns (Name container)) in
                     case ctx KeyParent of
                       TreeNodeV None \<Rightarrow> (Panicked, ctx, w)
                     | TreeNodeV (Some parent) \<Rightarrow>
                         (let (pns, _) = Namespaced cl (ID parent);
                              (root', w') = envRefs cl f root pns container w
                          in (Returned None,
                              ctx(KeyParent := TreeNodeV (Some (Add parent root'))), w'))
                     | x \<Rightarrow> (Returned (Some (ExpectingTreeNode x)), ctx, w)))
           | _ \<Rightarrow> (Returned (Some NoFactory), ctx, w))
      | _ \<Rightarrow> (Returned (Some (ExpectedContainerRes ob)), ctx, w))"

section \<open>Notions the properties are stated with\<close>

text \<open>The key \<^verbatim>\<open>getVS\<close> looks for: the kind alone, or the kind, \<^verbatim>\<open>@\<close> and the namespace.\<close>

definition target_key :: "string \<Rightarrow> string \<Rightarrow> string" where
  "target_key gvr ns = (if ns = [] then gvr else gvr @ ''@'' @ ns)"

text \<open>
  A key with exactly one \<^verbatim>\<open>@\<close> whose part after the \<^verbatim>\<open>@\<close> compiles to a regular expression
  that matches \<^verbatim>\<open>k\<close>.
\<close>

definition regex_candidate :: "regexp \<Rightarrow> string \<Rightarrow> string \<Rightarrow> bool" where
  "regex_candidate rx k key \<longleftrightarrow>
     count_list key CHR ''@'' = 1 \<and>
     (case rx (tl (dropWhile (\<lambda>x. x \<noteq> CHR ''@'') key)) of
        None \<Rightarrow> False | Some MatchString \<Rightarrow> MatchString k)"

text \<open>
  The lookup as claim C1 words it: among the keys that have the kind as a prefix, the
  setting of the first key equal to the target key; otherwise the setting of the first
  key that is a regular expression candidate; otherwise none.
\<close>

definition getVS_exact_first ::
  "regexp \<Rightarrow> CustomView \<Rightarrow> string list \<Rightarrow> string \<Rightarrow> string \<Rightarrow> ViewSetting option"
where
  "getVS_exact_first rx v keys gvr ns =
     (let k = target_key gvr ns; candidates = filter (\<lambda>key. HasPrefix key gvr) keys in
      case find (\<lambda>key. key = k) candidates of
        Some key \<Rightarrow> Views v key
      | None \<Rightarrow>
          (case find (regex_candidate rx k) candidates of
             Some key \<Rightarrow> Views v key
           | None \<Rightarrow> None))"

text \<open>A registry with an exact key and a pattern key for the same kind, for evaluation.\<close>

definition vs_sys :: ViewSetting where
  "vs_sys = \<lparr>Columns = [''NAME''], SortColumn = ''NAME:asc''\<rparr>"

definition vs_kube :: ViewSetting where
  "vs_kube = \<lparr>Columns = [''AGE''], SortColumn = ''AGE:desc''\<rparr>"

definition pod_views :: CustomView where
  "pod_views =
     \<lparr>Views = [''Pod@kube-system'' \<mapsto> vs_sys, ''Pod@kube'' \<mapsto> vs_kube],
      listeners = Map.empty\<rparr>"

text \<open>The identity of a node: its kind and its fully qualified id.\<close>

definition identity :: "TreeNode \<Rightarrow> GVR \<times> string" where
  "identity n = (GVR n, ID n)"

text \<open>A sequence of \<^verbatim>\<open>addRef\<close> calls on one parent, each with its kind, id and optional flag.\<close>

definition addRefs ::
  "Factory \<Rightarrow> TreeNode \<Rightarrow> (GVR \<times> string \<times> bool option) list \<Rightarrow> world \<Rightarrow> TreeNode \<times> world"
where
  "addRefs f parent refs w =
     foldl (\<lambda>pw (gvr, id', optional). addRef f (fst pw) gvr id' optional (snd pw))
       (parent, w) refs"

text \<open>
  A cluster holding the config map \<^verbatim>\<open>prod/app-cfg\<close> and nothing else, and a world in which
  nothing has happened yet, for evaluation.
\<close>

definition example_factory :: Factory where
  "example_factory gvr id' flag sel =
     (if gvr = CmGVR \<and> id' = ''prod/app-cfg'' then (Some (Object ''app-cfg''), None)
      else (None, Some ''not found''))"

definition empty_world :: world where
  "empty_world = \<lparr>slog = [], gets = [], notified = []\<rparr>"

text \<open>
  The references a container makes, each as the identity its node is to have: the kind
  (secret or config map) and the id built by \<^verbatim>\<open>client.FQN\<close> from a namespace and the name
  the reference gives. A variable with a value source contributes its secret key and its
  config map key reference, a bulk source its config map and its secret reference, where
  they are set.
\<close>

definition ref_identity :: "client \<Rightarrow> string \<Rightarrow> GVR \<Rightarrow> ObjectRef option \<Rightarrow> (GVR \<times> string) list" where
  "ref_identity cl ns gvr ref =
     (case ref of None \<Rightarrow> [] | Some r \<Rightarrow> [(gvr, FQN cl ns (ref_Name r))])"

definition env_references :: "client \<Rightarrow> string \<Rightarrow> v1_EnvVar \<Rightarrow> (GVR \<times> string) list" where
  "env_references cl ns e =
     (case ValueFrom e of
        None \<Rightarrow> []
      | Some vf \<Rightarrow>
          ref_identity cl ns SecGVR (SecretKeyRef vf) @ ref_identity cl ns CmGVR (ConfigMapKeyRef vf))"

definition envFrom_references :: "client \<Rightarrow> string \<Rightarrow> v1_EnvFromSource \<Rightarrow> (GVR \<times> string) list" where
  "envFrom_references cl ns e =
     ref_identity cl ns CmGVR (ConfigMapRef e) @ ref_identity cl ns SecGVR (SecretRef e)"

definition references :: "client \<Rightarrow> string \<Rightarrow> v1_Container \<Rightarrow> (GVR \<times> string) list" where
  "references cl ns co =
     concat (map (env_references cl ns) (Env co))
     @ concat (map (envFrom_references cl ns) (EnvFrom co))"

text \<open>What a step of \<^verbatim>\<open>envRefs\<close> hands on, without the identity of the node itself.\<close>

definition kids :: "TreeNode \<times> world \<Rightarrow> TreeNode list \<times> world" where
  "kids pw = (Children (fst pw), snd pw)"

text \<open>
  An instance of the \<^verbatim>\<open>client\<close> parameter for evaluation: ids of the form
  \<^verbatim>\<open>namespace/name\<close>, split at the first \<^verbatim>\<open>/\<close>.
\<close>

definition slash_client :: client where
  "slash_client =
     \<lparr>FQN = (\<lambda>ns n. if ns = [] then n else ns @ ''/'' @ n),
      Namespaced = (\<lambda>p. if CHR ''/'' \<in> set p
                          then (takeWhile (\<lambda>c. c \<noteq> CHR ''/'') p,
                                tl (dropWhile (\<lambda>c. c \<noteq> CHR ''/'') p))
                          else ([], p))\<rparr>"

text \<open>
  The container of the spec's end-to-end example: one variable from the secret
  \<^verbatim>\<open>db-pass\<close>, not optional, and a bulk source from the config map \<^verbatim>\<open>app-cfg\<close>, optional;
  and a context holding \<^verbatim>\<open>example_factory\<close> and the parent node \<^verbatim>\<open>prod/web-0\<close>.
\<close>

definition example_container :: v1_Container where
  "example_container =
     \<lparr>Name = ''web'',
      Env = [\<lparr>ValueFrom = Some \<lparr>SecretKeyRef =
                                     Some \<lparr>ref_Name = ''db-pass'', ref_Optional = Some False\<rparr>,
                                   ConfigMapKeyRef = None\<rparr>\<rparr>],
      EnvFrom = [\<lparr>ConfigMapRef = Some \<lparr>ref_Name = ''app-cfg'', ref_Optional = Some True\<rparr>,
                  SecretRef = None\<rparr>]\<rparr>"

definition example_ctx :: Context where
  "example_ctx key =
     (case key of
        KeyFactory \<Rightarrow> FactoryV example_factory
      | KeyParent \<Rightarrow> TreeNodeV (Some (NewTreeNode (OtherGVR ''v1/pods'') ''prod/web-0'')))"

text \<open>
  The text of an error, as its \<^verbatim>\<open>Error\<close> method gives it: for a \<^verbatim>\<open>*fs.PathError\<close> the
  operation, the path and the text of the cause (the system's texts for the two named
  causes); for the parser's error its message.
\<close>

fun errno_text :: "errno \<Rightarrow> string" where
  "errno_text ErrNotExist = ''no such file or directory''"
| "errno_text ErrPermission = ''permission denied''"
| "errno_text (ErrOther s) = s"

fun Error_text :: "load_error \<Rightarrow> string" where
  "Error_text (PathError opn path err) = opn @ '' '' @ path @ '': '' @ errno_text err"
| "Error_text (YamlError msg) = msg"

text \<open>An error names a path when the path occurs in its text.\<close>

definition names_path :: "load_error \<Rightarrow> string \<Rightarrow> bool" where
  "names_path err path = Contains (Error_text err) path"

text \<open>
  One round of notifications: for every key the iteration over the listeners yields, the
  listener registered under it with the setting \<^verbatim>\<open>getVS\<close> computes from that key and the
  namespace the listener reports.
\<close>

definition notification_round ::
  "env \<Rightarrow> CustomView \<Rightarrow> (ViewConfigListener \<times> ViewSetting option) list"
where
  "notification_round e v =
     concat (map (\<lambda>gvr. case listeners v gvr of
                            None \<Rightarrow> []
                          | Some l \<Rightarrow>
                              [(l, getVS (regexp_Compile e) v (range_views e gvr) gvr
                                     (GetNamespace l))])
               (range_listeners e))"

text \<open>
  A file system and libraries for evaluation: \<^verbatim>\<open>/cfg/missing.yaml\<close> does not exist,
  \<^verbatim>\<open>/cfg/locked.yaml\<close> cannot be opened, \<^verbatim>\<open>/cfg/broken.yaml\<close> holds text the parser rejects,
  and every other path holds a document that parses to one view for \<^verbatim>\<open>Pod\<close> but has a
  property the schema does not know. The registry \<^verbatim>\<open>example_view\<close> has one listener, for
  \<^verbatim>\<open>Pod\<close> in the namespace \<^verbatim>\<open>kube-system\<close>.
\<close>

definition example_env :: env where
  "example_env =
     \<lparr>regexp_Compile = literal_regexp,
      os_Stat = (\<lambda>p. if p = ''/cfg/missing.yaml'' then Some ErrNotExist else None),
      os_ReadFile = (\<lambda>p. if p = ''/cfg/locked.yaml'' then Inl (''open'', ErrPermission)
                          else if p = ''/cfg/broken.yaml'' then Inr ''views: [''
                          else Inr ''views: {Pod: {sortColum: AGE}}''),
      Validate = (\<lambda>bb. if bb = ''views: ['' then Some ''invalid document''
                        else Some ''additional property sortColum is not allowed''),
      yaml_Unmarshal =
        (\<lambda>bb. if bb = ''views: [''
              then Inl ''yaml: line 1: did not find expected node content''
              else Inr [''Pod'' \<mapsto> \<lparr>Columns = [], SortColumn = []\<rparr>]),
      range_listeners = [''Pod''],
      range_views = (\<lambda>gvr. [''Pod''])\<rparr>"

definition example_view :: CustomView where
  "example_view =
     \<lparr>Views = Map.empty, listeners = [''Pod'' \<mapsto> Listener ''pod-table'' ''kube-system'']\<rparr>"

section \<open>Properties of package config\<close>

subsection \<open>Splitting at a separator\<close>

lemma Split_not_Nil: "Split s c \<noteq> []"
  by (induction s) (auto split: list.splits)

lemma Split_unfold:
  "Split s c = takeWhile (\<lambda>x. x \<noteq> c) s #
     (if c \<in> set s then Split (tl (dropWhile (\<lambda>x. x \<noteq> c) s)) c else [])"
  by (induction s) (auto split: list.splits simp: Split_not_Nil)

lemma Split_length: "length (Split s c) < 2 \<longleftrightarrow> c \<notin> set s"
  by (subst Split_unfold) (auto simp: Split_not_Nil)

lemma Split_0: "Split s c ! 0 = takeWhile (\<lambda>x. x \<noteq> c) s"
  by (subst Split_unfold) simp

lemma Split_1: "c \<in> set s \<Longrightarrow>
   Split s c ! Suc 0 = takeWhile (\<lambda>x. x \<noteq> c) (tl (dropWhile (\<lambda>x. x \<noteq> c) s))"
  by (subst Split_unfold, simp, subst Split_unfold, simp)

lemma Split_count: "length (Split s c) = Suc (count_list s c)"
  by (induction s) (auto split: list.splits simp: Split_not_Nil)

lemma count_dropWhile: "c \<in> set s \<Longrightarrow>
   count_list s c = Suc (count_list (tl (dropWhile (\<lambda>x. x \<noteq> c) s)) c)"
  by (induction s) auto

lemma Split_1_one:
  assumes "count_list s c = 1"
  shows "Split s c ! Suc 0 = tl (dropWhile (\<lambda>x. x \<noteq> c) s)"
proof -
  let ?rest = "tl (dropWhile (\<lambda>x. x \<noteq> c) s)"
  have m: "c \<in> set s"
    using assms by (metis count_list_0_iff zero_neq_one)
  have "count_list s c = Suc (count_list ?rest c)"
    by (rule count_dropWhile[OF m])
  with assms have "count_list ?rest c = 0"
    by linarith
  then have nc: "c \<notin> set ?rest"
    by (rule count_list_0_iff[THEN iffD1])
  have tw: "takeWhile (\<lambda>x. x \<noteq> c) ?rest = ?rest"
    by (rule takeWhile_eq_all_conv[THEN iffD2]) (use nc in blast)
  show ?thesis
    by (rule trans[OF Split_1[OF m] tw])
qed


subsection \<open>The sort column\<close>

lemma SortCol_Some:
  "SortCol (Some vs) =
     (if SortColumn vs = [] then Inl NoSortColumn
      else if CHR '':'' \<notin> set (SortColumn vs) then Inl (InvalidSortColumn (SortColumn vs))
      else Inr (takeWhile (\<lambda>x. x \<noteq> CHR '':'') (SortColumn vs),
                takeWhile (\<lambda>x. x \<noteq> CHR '':'')
                  (tl (dropWhile (\<lambda>x. x \<noteq> CHR '':'') (SortColumn vs))) = ''asc''))"
proof (cases "SortColumn vs = []")
  case True
  then show ?thesis by (simp add: SortCol_def)
next
  case False
  note ne = this
  show ?thesis
  proof (cases "CHR '':'' \<in> set (SortColumn vs)")
    case True
    with ne show ?thesis
      by (simp add: SortCol_def Let_def Split_length Split_0 Split_1)
  next
    case False
    with ne show ?thesis
      by (simp add: SortCol_def Let_def Split_length)
  qed
qed

text \<open>
  Claim C10. \<^verbatim>\<open>SortCol\<close> returns an error exactly when the setting is nil, its
  \<^verbatim>\<open>SortColumn\<close> is empty, or \<^verbatim>\<open>SortColumn\<close> holds no \<^verbatim>\<open>:\<close>. Otherwise it returns the text before
  the first \<^verbatim>\<open>:\<close> and a flag that is true precisely when the field between the first \<^verbatim>\<open>:\<close> and
  the next one (or the end) is \<^verbatim>\<open>asc\<close>: every other direction is accepted without error
  and counts as descending.
\<close>

theorem SortCol_spec:
  "(isl (SortCol v) \<longleftrightarrow>
      v = None \<or> SortColumn (the v) = [] \<or> CHR '':'' \<notin> set (SortColumn (the v)))
   \<and> (\<forall>vs. v = Some vs \<and> SortColumn vs \<noteq> [] \<and> CHR '':'' \<in> set (SortColumn vs) \<longrightarrow>
         SortCol v =
           Inr (takeWhile (\<lambda>x. x \<noteq> CHR '':'') (SortColumn vs),
                takeWhile (\<lambda>x. x \<noteq> CHR '':'')
                  (tl (dropWhile (\<lambda>x. x \<noteq> CHR '':'') (SortColumn vs))) = ''asc''))"
proof (cases v)
  case None
  then show ?thesis by (simp add: SortCol_def)
next
  case (Some vs)
  then show ?thesis by (simp add: SortCol_Some)
qed

text \<open>
  Claim C10 at concrete settings: \<^verbatim>\<open>age:dsc\<close>, a misspelt direction, is accepted and is
  descending.
\<close>

theorem SortCol_spec_witness:
  "SortCol (Some \<lparr>Columns = [], SortColumn = ''age:dsc''\<rparr>) = Inr (''age'', False)"
  using SortCol_spec [of "Some \<lparr>Columns = [], SortColumn = ''age:dsc''\<rparr>"]
  by simp

subsection \<open>The lookup of a view setting\<close>

lemma Contains_char: "Contains s [c] \<longleftrightarrow> c \<in> set s"
  by (induction s) auto

lemma regex_candidate_iff:
  "regex_candidate rx k key \<longleftrightarrow>
     Contains key ''@'' \<and> length (Split key CHR ''@'') = 2 \<and>
     (case rx (Split key CHR ''@'' ! 1) of None \<Rightarrow> False | Some m \<Rightarrow> m k)"
proof (cases "count_list key CHR ''@'' = 1")
  case True
  then have "CHR ''@'' \<in> set key"
    using count_list_0_iff[of key "CHR ''@''"] by simp
  with True show ?thesis
    by (simp add: regex_candidate_def Split_count Split_1_one Contains_char)
next
  case False
  then show ?thesis by (simp add: regex_candidate_def Split_count)
qed

lemma getVS_loop_find:
  "getVS_loop rx views gvr k keys =
     (case find (\<lambda>key. HasPrefix key gvr \<and> (key = k \<or> regex_candidate rx k key)) keys of
        None \<Rightarrow> None | Some key \<Rightarrow> Some (index_Views views key))"
proof (induction keys)
  case Nil
  then show ?case by simp
next
  case (Cons key keys)
  show ?case
    unfolding getVS_loop.simps find.simps Cons.IH regex_candidate_iff
    by (simp add: Let_def split: option.splits)
qed

text \<open>
  Claim C1, as the code has it. \<^verbatim>\<open>getVS\<close> computes the target key (the kind when the
  namespace is empty, the kind, \<^verbatim>\<open>@\<close> and the namespace otherwise) and scans the keys of the
  mapping once, in the order the iteration yields them. It returns the setting of the
  first key that has the kind as a prefix and either equals the target key or holds
  exactly one \<^verbatim>\<open>@\<close> followed by a pattern that compiles and matches the target key; it
  returns none when there is no such key. An exact key therefore wins over a matching
  pattern key only when the iteration does not reach a matching pattern key before it.
\<close>

theorem getVS_first_match:
  assumes "enumerates keys (Views v)"
  shows "getVS rx v keys gvr ns =
     (case find (\<lambda>key. HasPrefix key gvr \<and>
                    (key = target_key gvr ns \<or> regex_candidate rx (target_key gvr ns) key)) keys of
        None \<Rightarrow> None | Some key \<Rightarrow> Views v key)"
proof -
  have "\<And>key. key \<in> set keys \<Longrightarrow> Some (index_Views (Views v) key) = Views v key"
    using assms by (auto simp: enumerates_def index_Views_def)
  then show ?thesis
    by (auto simp: getVS_def Let_def getVS_loop_find target_key_def
             split: option.splits dest!: find_Some_iff[THEN iffD1] intro: nth_mem)
qed


text \<open>
  Claim C1 as amended, at the registry \<^verbatim>\<open>pod_views\<close> when the iteration yields the pattern key
  \<^verbatim>\<open>Pod@kube\<close> before the exact key \<^verbatim>\<open>Pod@kube-system\<close>.
\<close>

theorem getVS_first_match_witness:
  "enumerates [''Pod@kube'', ''Pod@kube-system''] (Views pod_views) \<and>
   getVS literal_regexp pod_views [''Pod@kube'', ''Pod@kube-system''] ''Pod'' ''kube-system''
     = Some vs_kube"
proof -
  have h: "enumerates [''Pod@kube'', ''Pod@kube-system''] (Views pod_views)"
    by (auto simp: enumerates_def pod_views_def)
  have r: "regex_candidate literal_regexp ''Pod@kube-system'' ''Pod@kube''"
    by (simp add: regex_candidate_def literal_regexp_def literal_char_def)
  show ?thesis
    using h r getVS_first_match [OF h, of literal_regexp "''Pod''" "''kube-system''"]
    by (simp add: target_key_def HasPrefix_def pod_views_def)
qed

text \<open>
  Claim C1 as worded fails there: the lookup for kind \<^verbatim>\<open>Pod\<close> in namespace \<^verbatim>\<open>kube-system\<close>
  returns the setting of the pattern key, although the exact key \<^verbatim>\<open>Pod@kube-system\<close> is
  among the candidates with a different setting.
\<close>

theorem getVS_exact_first_counterexample:
  "getVS literal_regexp pod_views [''Pod@kube'', ''Pod@kube-system''] ''Pod'' ''kube-system''
     = Some vs_kube \<and>
   getVS_exact_first literal_regexp pod_views [''Pod@kube'', ''Pod@kube-system'']
     ''Pod'' ''kube-system'' = Some vs_sys \<and>
   vs_kube \<noteq> vs_sys"
proof -
  have a: "getVS literal_regexp pod_views [''Pod@kube'', ''Pod@kube-system''] ''Pod''
             ''kube-system'' = Some vs_kube"
    by (simp add: getVS_def pod_views_def index_Views_def literal_regexp_def literal_char_def
          Let_def HasPrefix_def)
  have b: "getVS_exact_first literal_regexp pod_views [''Pod@kube'', ''Pod@kube-system'']
             ''Pod'' ''kube-system'' = Some vs_sys"
    by (simp add: getVS_exact_first_def pod_views_def target_key_def HasPrefix_def)
  have c: "vs_kube \<noteq> vs_sys"
    by (simp add: vs_kube_def vs_sys_def)
  from a b c show ?thesis by simp
qed

section \<open>Properties of package xray\<close>

subsection \<open>Resolving a reference\<close>

lemma validate_cases:
  "validate f n optional w =
     (let q = f (GVR n) (ID n) True Everything;
          w1 = w\<lparr>gets := gets w @ [(GVR n, ID n, True, Everything)]\<rparr>
      in if snd q \<noteq> None \<or> fst q = None then
           (if optional \<noteq> Some True then
              (set_Extras n StatusKey MissingRefStatus,
               slog_write (Log Warn ''Missing ref''
                             [(slogs_GVR, AGVR (GVR n)), (slogs_ID, AString (ID n))]) w1)
            else (n, w1))
         else (set_Extras n StatusKey OkStatus, w1))"
  by (cases "f (GVR n) (ID n) True Everything"; cases optional)
     (auto simp: validate_def Let_def)

text \<open>
  Claim C2. \<^verbatim>\<open>validate\<close> makes one call to \<^verbatim>\<open>Factory.Get\<close> for the node's kind and id, with
  the flag \<^verbatim>\<open>true\<close> (the fresh lookup of the spec) and the selector \<^verbatim>\<open>labels.Everything()\<close>.
  When the call gives an error or no object and \<^verbatim>\<open>optional\<close> is nil or false, the status
  Extra becomes \<^verbatim>\<open>MissingRefStatus\<close> and exactly one warning is appended to the log. When it
  gives an error or no object and \<^verbatim>\<open>optional\<close> is true, the node is left as it was and
  nothing is logged. When it succeeds the status Extra becomes \<^verbatim>\<open>OkStatus\<close> whatever
  \<^verbatim>\<open>optional\<close> is, and nothing is logged. \<^verbatim>\<open>validate\<close> hands no error to its caller: its
  result is the node and the world only, and the identity and the children of the node
  stay as they were.
\<close>

theorem validate_spec:
  "(let q = f (GVR n) (ID n) True Everything;
        r = validate f n optional w;
        missing = (snd q \<noteq> None \<or> fst q = None)
    in gets (snd r) = gets w @ [(GVR n, ID n, True, Everything)]
       \<and> notified (snd r) = notified w
       \<and> GVR (fst r) = GVR n \<and> ID (fst r) = ID n \<and> Children (fst r) = Children n
       \<and> (missing \<and> optional \<noteq> Some True \<longrightarrow>
            Extras (fst r) = (Extras n)(StatusKey \<mapsto> MissingRefStatus) \<and>
            slog (snd r) = slog w @ [Log Warn ''Missing ref''
                                      [(slogs_GVR, AGVR (GVR n)), (slogs_ID, AString (ID n))]])
       \<and> (missing \<and> optional = Some True \<longrightarrow> fst r = n \<and> slog (snd r) = slog w)
       \<and> (\<not> missing \<longrightarrow>
            Extras (fst r) = (Extras n)(StatusKey \<mapsto> OkStatus) \<and> slog (snd r) = slog w))"
  by (simp add: validate_cases Let_def set_Extras_def slog_write_def)

text \<open>
  Claim C2 at concrete inputs: a missing secret with \<^verbatim>\<open>optional\<close> nil, the same secret with
  \<^verbatim>\<open>optional\<close> true, and a config map that the cluster holds.
\<close>

theorem validate_spec_witness:
  "Extras (fst (validate example_factory (NewTreeNode SecGVR ''prod/db-pass'') None empty_world))
      StatusKey = Some MissingRefStatus
   \<and> length (slog (snd (validate example_factory (NewTreeNode SecGVR ''prod/db-pass'') None
                        empty_world))) = 1
   \<and> Extras (fst (validate example_factory (NewTreeNode SecGVR ''prod/db-pass'') (Some True)
                    empty_world)) StatusKey = None
   \<and> slog (snd (validate example_factory (NewTreeNode SecGVR ''prod/db-pass'') (Some True)
                  empty_world)) = []
   \<and> Extras (fst (validate example_factory (NewTreeNode CmGVR ''prod/app-cfg'') (Some False)
                    empty_world)) StatusKey = Some OkStatus"
  using validate_spec [of example_factory "NewTreeNode SecGVR ''prod/db-pass''" None empty_world]
    validate_spec [of example_factory "NewTreeNode SecGVR ''prod/db-pass''" "Some True" empty_world]
    validate_spec [of example_factory "NewTreeNode CmGVR ''prod/app-cfg''" "Some False" empty_world]
  by (simp add: Let_def example_factory_def NewTreeNode_def empty_world_def)

subsection \<open>Adding a reference once\<close>

lemma validate_identity: "identity (fst (validate f n optional w)) = identity n"
  by (simp add: validate_cases Let_def identity_def set_Extras_def)

lemma Find_None: "Find p gvr id' = None \<longleftrightarrow> (gvr, id') \<notin> set (map identity (Children p))"
  by (auto simp: Find_def find_None_iff identity_def)

lemma addRef_ids:
  "map identity (Children (fst (addRef f p gvr id' optional w))) =
     (if (gvr, id') \<in> set (map identity (Children p)) then map identity (Children p)
      else map identity (Children p) @ [(gvr, id')])"
proof (cases "Find p gvr id'")
  case None
  have "(gvr, id') \<notin> set (map identity (Children p))"
    by (rule iffD1[OF Find_None None])
  moreover have "identity (fst (validate f (NewTreeNode gvr id') optional w)) = (gvr, id')"
    by (simp add: validate_identity) (simp add: identity_def NewTreeNode_def)
  ultimately show ?thesis using None
    by (simp add: addRef_def Add_def split_beta Let_def)
next
  case (Some c)
  have "(gvr, id') \<in> set (map identity (Children p))"
  proof (rule ccontr)
    assume "(gvr, id') \<notin> set (map identity (Children p))"
    then have "Find p gvr id' = None" by (rule iffD2[OF Find_None])
    with Some show False by simp
  qed
  with Some show ?thesis by (simp add: addRef_def)
qed

lemma addRef_distinct:
  "distinct (map identity (Children p)) \<Longrightarrow>
   distinct (map identity (Children (fst (addRef f p gvr id' optional w))))"
  by (simp only: addRef_ids) simp

lemma addRef_mem:
  "(gvr, id') \<in> set (map identity (Children (fst (addRef f p gvr id' optional w))))"
  by (simp only: addRef_ids) simp

lemma addRef_mono:
  "x \<in> set (map identity (Children p)) \<Longrightarrow>
   x \<in> set (map identity (Children (fst (addRef f p gvr id' optional w))))"
  by (simp only: addRef_ids) simp

lemma addRefs_snoc:
  "addRefs f p (refs @ [(gvr, id', optional)]) w =
     addRef f (fst (addRefs f p refs w)) gvr id' optional (snd (addRefs f p refs w))"
  by (simp add: addRefs_def)

lemma addRefs_distinct:
  "distinct (map identity (Children p)) \<Longrightarrow>
   distinct (map identity (Children (fst (addRefs f p refs w))))"
proof (induction refs rule: rev_induct)
  case Nil
  then show ?case by (simp add: addRefs_def)
next
  case (snoc r refs)
  obtain gvr id' optional where r: "r = (gvr, id', optional)" by (cases r)
  show ?case unfolding r addRefs_snoc using snoc by (intro addRef_distinct) simp
qed

lemma addRefs_mem:
  "(gvr, id', optional) \<in> set refs \<Longrightarrow>
   (gvr, id') \<in> set (map identity (Children (fst (addRefs f p refs w))))"
proof (induction refs rule: rev_induct)
  case Nil
  then show ?case by simp
next
  case (snoc r refs)
  obtain g i ob where r: "r = (g, i, ob)" by (cases r)
  show ?case
  proof (cases "(gvr, id', optional) \<in> set refs")
    case True
    then show ?thesis unfolding r addRefs_snoc by (intro addRef_mono snoc.IH)
  next
    case False
    with snoc.prems r have "g = gvr" "i = id'" by auto
    then show ?thesis unfolding r addRefs_snoc by (simp only: addRef_mem)
  qed
qed

lemma distinct_count_one:
  "distinct (map h cs) \<Longrightarrow> x \<in> set (map h cs) \<Longrightarrow> length (filter (\<lambda>c. h c = x) cs) = 1"
proof (induction cs)
  case Nil
  then show ?case by simp
next
  case (Cons c cs)
  show ?case
  proof (cases "h c = x")
    case True
    with Cons.prems have "x \<notin> h ` set cs" by simp
    then have "\<forall>d\<in>set cs. h d \<noteq> x" by blast
    then have "filter (\<lambda>c. h c = x) cs = []" by (simp add: filter_empty_conv)
    with True show ?thesis by simp
  next
    case False
    with Cons show ?thesis by auto
  qed
qed

text \<open>
  Claim C3. \<^verbatim>\<open>addRef\<close> changes nothing (the parent and the world are returned as they
  were, no node is created and no query is made) when \<^verbatim>\<open>parent.Find(kind, id)\<close> finds a
  node; otherwise it creates one node of that kind and id, validates it and appends it to
  the children. Hence a sequence of \<^verbatim>\<open>addRef\<close> calls on a parent whose children have
  pairwise different identities leaves children with pairwise different identities, and a
  reference that occurs in the sequence, however often, ends up as exactly one child.
\<close>

theorem addRef_spec:
  "(Find parent gvr id' \<noteq> None \<longrightarrow> addRef f parent gvr id' optional w = (parent, w))
   \<and> (Find parent gvr id' = None \<longrightarrow>
        (let r = validate f (NewTreeNode gvr id') optional w
         in addRef f parent gvr id' optional w = (Add parent (fst r), snd r)
            \<and> Children (Add parent (fst r)) = Children parent @ [fst r]
            \<and> identity (fst r) = (gvr, id')))
   \<and> (distinct (map identity (Children parent)) \<longrightarrow>
        distinct (map identity (Children (fst (addRefs f parent refs w)))))
   \<and> (distinct (map identity (Children parent)) \<and> (gvr, id', optional) \<in> set refs \<longrightarrow>
        length (filter (\<lambda>c. identity c = (gvr, id'))
                  (Children (fst (addRefs f parent refs w)))) = 1)"
proof -
  have a: "Find parent gvr id' \<noteq> None \<longrightarrow> addRef f parent gvr id' optional w = (parent, w)"
    by (auto simp: addRef_def)
  have b: "Find parent gvr id' = None \<longrightarrow>
        (let r = validate f (NewTreeNode gvr id') optional w
         in addRef f parent gvr id' optional w = (Add parent (fst r), snd r)
            \<and> Children (Add parent (fst r)) = Children parent @ [fst r]
            \<and> identity (fst r) = (gvr, id'))"
    by (simp add: addRef_def Let_def split_beta Add_def validate_identity)
       (simp add: identity_def NewTreeNode_def)
  have c: "distinct (map identity (Children parent)) \<longrightarrow>
        distinct (map identity (Children (fst (addRefs f parent refs w))))"
    using addRefs_distinct by blast
  have d: "distinct (map identity (Children parent)) \<and> (gvr, id', optional) \<in> set refs \<longrightarrow>
        length (filter (\<lambda>c. identity c = (gvr, id'))
                  (Children (fst (addRefs f parent refs w)))) = 1"
    using distinct_count_one[OF addRefs_distinct addRefs_mem] by blast
  from a b c d show ?thesis by blast
qed


text \<open>
  Claim C3 at concrete inputs: the secret \<^verbatim>\<open>prod/db-pass\<close> referenced twice under a fresh
  node gives one child, and a further \<^verbatim>\<open>addRef\<close> for it changes nothing.
\<close>

theorem addRef_spec_witness:
  "Find (NewTreeNode CoGVR ''prod/web'') SecGVR ''prod/db-pass'' = None
   \<and> distinct (map identity (Children (NewTreeNode CoGVR ''prod/web'')))
   \<and> length (filter (\<lambda>c. identity c = (SecGVR, ''prod/db-pass''))
        (Children (fst (addRefs example_factory (NewTreeNode CoGVR ''prod/web'')
           [(SecGVR, ''prod/db-pass'', None), (SecGVR, ''prod/db-pass'', None)] empty_world)))) = 1
   \<and> Find (Add (NewTreeNode CoGVR ''prod/web'') (NewTreeNode SecGVR ''prod/db-pass''))
         SecGVR ''prod/db-pass'' \<noteq> None
   \<and> addRef example_factory
         (Add (NewTreeNode CoGVR ''prod/web'') (NewTreeNode SecGVR ''prod/db-pass''))
         SecGVR ''prod/db-pass'' None empty_world
       = (Add (NewTreeNode CoGVR ''prod/web'') (NewTreeNode SecGVR ''prod/db-pass''), empty_world)"
  using
    addRef_spec [of "NewTreeNode CoGVR ''prod/web''" SecGVR "''prod/db-pass''" example_factory
      None empty_world "[(SecGVR, ''prod/db-pass'', None), (SecGVR, ''prod/db-pass'', None)]"]
    addRef_spec [of "Add (NewTreeNode CoGVR ''prod/web'') (NewTreeNode SecGVR ''prod/db-pass'')"
      SecGVR "''prod/db-pass''" example_factory None empty_world "[]"]
  by (simp add: Find_def NewTreeNode_def Add_def)

subsection \<open>Rendering a container\<close>

lemma Render_mismatch:
  "(\<forall>co. ob \<noteq> ContainerResV co) \<Longrightarrow>
   Render cl ctx ns ob w = (Returned (Some (ExpectedContainerRes ob)), ctx, w)"
  by (cases ob) (simp_all add: Render_def)

lemma Render_no_factory:
  "(\<forall>f. ctx KeyFactory \<noteq> FactoryV f) \<Longrightarrow>
   Render cl ctx ns (ContainerResV co) w = (Returned (Some NoFactory), ctx, w)"
  by (cases "ctx KeyFactory") (simp_all add: Render_def)

lemma Render_nil_container:
  "ctx KeyFactory = FactoryV f \<Longrightarrow> Container co = None \<Longrightarrow>
   Render cl ctx ns (ContainerResV co) w = (Panicked, ctx, w)"
  by (simp add: Render_def)

lemma Render_no_parent:
  "ctx KeyFactory = FactoryV f \<Longrightarrow> Container co = Some container \<Longrightarrow>
   (\<forall>p. ctx KeyParent \<noteq> TreeNodeV p) \<Longrightarrow>
   Render cl ctx ns (ContainerResV co) w
     = (Returned (Some (ExpectingTreeNode (ctx KeyParent))), ctx, w)"
  by (cases "ctx KeyParent") (simp_all add: Render_def)

lemma Render_nil_parent:
  "ctx KeyFactory = FactoryV f \<Longrightarrow> Container co = Some container \<Longrightarrow>
   ctx KeyParent = TreeNodeV None \<Longrightarrow>
   Render cl ctx ns (ContainerResV co) w = (Panicked, ctx, w)"
  by (simp add: Render_def)

lemma Render_ok:
  "ctx KeyFactory = FactoryV f \<Longrightarrow> Container co = Some container \<Longrightarrow>
   ctx KeyParent = TreeNodeV (Some parent) \<Longrightarrow>
   Render cl ctx ns (ContainerResV co) w =
     (Returned None,
      ctx(KeyParent := TreeNodeV (Some (Add parent
         (fst (envRefs cl f (NewTreeNode CoGVR (FQN cl ns (Name container)))
                 (fst (Namespaced cl (ID parent))) container w))))),
      snd (envRefs cl f (NewTreeNode CoGVR (FQN cl ns (Name container)))
             (fst (Namespaced cl (ID parent))) container w))"
  by (simp add: Render_def Let_def split_beta)

text \<open>The six ways a call of \<^verbatim>\<open>Render\<close> can go, by what it is given.\<close>

lemma Render_cases:
  obtains
    (mismatch) "\<forall>co. ob \<noteq> ContainerResV co"
  | (no_factory) co where "ob = ContainerResV co" "\<forall>f. ctx KeyFactory \<noteq> FactoryV f"
  | (nil_container) co f where "ob = ContainerResV co" "ctx KeyFactory = FactoryV f"
      "Container co = None"
  | (no_parent) co f container where "ob = ContainerResV co" "ctx KeyFactory = FactoryV f"
      "Container co = Some container" "\<forall>p. ctx KeyParent \<noteq> TreeNodeV p"
  | (nil_parent) co f container where "ob = ContainerResV co" "ctx KeyFactory = FactoryV f"
      "Container co = Some container" "ctx KeyParent = TreeNodeV None"
  | (ok) co f container parent where "ob = ContainerResV co" "ctx KeyFactory = FactoryV f"
      "Container co = Some container" "ctx KeyParent = TreeNodeV (Some parent)"
proof (cases "\<exists>co. ob = ContainerResV co")
  case False
  then show ?thesis using mismatch by blast
next
  case True
  then obtain co where ob: "ob = ContainerResV co" by blast
  show ?thesis
  proof (cases "\<exists>f. ctx KeyFactory = FactoryV f")
    case False
    then show ?thesis using no_factory ob by blast
  next
    case True
    then obtain f where f: "ctx KeyFactory = FactoryV f" by blast
    show ?thesis
    proof (cases "Container co")
      case None
      then show ?thesis using nil_container ob f by blast
    next
      case (Some container)
      show ?thesis
      proof (cases "\<exists>p. ctx KeyParent = TreeNodeV p")
        case False
        then show ?thesis using no_parent ob f Some by blast
      next
        case True
        then obtain p where p: "ctx KeyParent = TreeNodeV p" by blast
        show ?thesis
        proof (cases p)
          case None
          then show ?thesis using nil_parent ob f Some p by blast
        next
          case (Some parent)
          then show ?thesis using ok ob f \<open>Container co = Some container\<close> p by blast
        qed
      qed
    qed
  qed
qed


text \<open>
  \<^verbatim>\<open>Render\<close> panics exactly when the object is a \<^verbatim>\<open>ContainerRes\<close>, the factory is there, and
  the container pointer is nil or the parent key holds a nil \<^verbatim>\<open>*TreeNode\<close>.
\<close>

lemma Render_panics:
  "fst (Render cl ctx ns ob w) = Panicked \<longleftrightarrow>
     (\<exists>co f. ob = ContainerResV co \<and> ctx KeyFactory = FactoryV f
        \<and> (Container co = None \<or> ctx KeyParent = TreeNodeV None))"
proof (cases rule: Render_cases[where ob=ob and ctx=ctx])
  case mismatch
  then show ?thesis by (simp add: Render_mismatch)
next
  case (no_factory co)
  then show ?thesis by (simp add: Render_no_factory)
next
  case (nil_container co f)
  then show ?thesis by (simp add: Render_nil_container[where ctx=ctx])
next
  case (no_parent co f container)
  then show ?thesis by (simp add: Render_no_parent[where ctx=ctx])
next
  case (nil_parent co f container)
  then show ?thesis by (simp add: Render_nil_parent[where ctx=ctx])
next
  case (ok co f container parent)
  then show ?thesis by (simp add: Render_ok[where ctx=ctx])
qed




subsection \<open>The namespace of the references\<close>

lemma addRef_identity: "identity (fst (addRef f p gvr id' optional w)) = identity p"
  by (simp add: addRef_def Add_def identity_def split_beta Let_def split: option.splits)

lemma addRef_kids:
  "Children p = Children p' \<Longrightarrow>
   kids (addRef f p gvr id' optional w) = kids (addRef f p' gvr id' optional w)"
  by (simp add: kids_def addRef_def Find_def Add_def split_beta Let_def split: option.splits)

lemma secretRefs_identity: "identity (fst (secretRefs cl f p ns ref w)) = identity p"
  by (simp add: secretRefs_def addRef_identity split: option.splits)

lemma configMapRefs_identity: "identity (fst (configMapRefs cl f p ns ref w)) = identity p"
  by (simp add: configMapRefs_def addRef_identity split: option.splits)

lemma secretRefs_kids:
  assumes "Children p = Children p'"
  shows "kids (secretRefs cl f p ns ref w) = kids (secretRefs cl f p' ns ref w)"
proof (cases ref)
  case None
  with assms show ?thesis by (simp add: secretRefs_def kids_def)
next
  case (Some r)
  show ?thesis unfolding Some secretRefs_def option.case by (rule addRef_kids[OF assms])
qed

lemma configMapRefs_kids:
  assumes "Children p = Children p'"
  shows "kids (configMapRefs cl f p ns ref w) = kids (configMapRefs cl f p' ns ref w)"
proof (cases ref)
  case None
  with assms show ?thesis by (simp add: configMapRefs_def kids_def)
next
  case (Some r)
  show ?thesis unfolding Some configMapRefs_def option.case by (rule addRef_kids[OF assms])
qed

lemma env_body_identity: "identity (fst (env_body cl f ns pw e)) = identity (fst pw)"
  by (simp add: env_body_def split_beta configMapRefs_identity secretRefs_identity
           split: option.splits)

lemma envFrom_body_identity: "identity (fst (envFrom_body cl f ns pw e)) = identity (fst pw)"
  by (simp add: envFrom_body_def split_beta addRef_identity split: option.splits)

lemma env_body_kids:
  assumes "kids pw = kids pw'"
  shows "kids (env_body cl f ns pw e) = kids (env_body cl f ns pw' e)"
proof (cases "ValueFrom e")
  case None
  with assms show ?thesis by (simp add: env_body_def)
next
  case (Some vf)
  from assms have c: "Children (fst pw) = Children (fst pw')" and w: "snd pw = snd pw'"
    by (simp_all add: kids_def)
  let ?a = "secretRefs cl f (fst pw) ns (SecretKeyRef vf) (snd pw)"
  let ?b = "secretRefs cl f (fst pw') ns (SecretKeyRef vf) (snd pw')"
  have "kids ?a = kids ?b"
    using secretRefs_kids[OF c] w by simp
  then have c1: "Children (fst ?a) = Children (fst ?b)" and w1: "snd ?a = snd ?b"
    by (simp_all add: kids_def)
  have "kids (configMapRefs cl f (fst ?a) ns (ConfigMapKeyRef vf) (snd ?a))
      = kids (configMapRefs cl f (fst ?b) ns (ConfigMapKeyRef vf) (snd ?b))"
    using configMapRefs_kids[OF c1] w1 by simp
  with Some show ?thesis by (simp add: env_body_def split_beta)
qed

lemma envFrom_body_kids:
  assumes "kids pw = kids pw'"
  shows "kids (envFrom_body cl f ns pw e) = kids (envFrom_body cl f ns pw' e)"
proof -
  from assms have c: "Children (fst pw) = Children (fst pw')" and w: "snd pw = snd pw'"
    by (simp_all add: kids_def)
  let ?a = "case ConfigMapRef e of None \<Rightarrow> pw
            | Some r \<Rightarrow> addRef f (fst pw) CmGVR (FQN cl ns (ref_Name r)) (ref_Optional r) (snd pw)"
  let ?b = "case ConfigMapRef e of None \<Rightarrow> pw'
            | Some r \<Rightarrow> addRef f (fst pw') CmGVR (FQN cl ns (ref_Name r)) (ref_Optional r) (snd pw')"
  have "kids ?a = kids ?b"
    using assms addRef_kids[OF c] w by (simp split: option.splits)
  then have c1: "Children (fst ?a) = Children (fst ?b)" and w1: "snd ?a = snd ?b"
    by (simp_all add: kids_def)
  have "kids (case SecretRef e of None \<Rightarrow> (fst ?a, snd ?a)
              | Some r \<Rightarrow> addRef f (fst ?a) SecGVR (FQN cl ns (ref_Name r)) (ref_Optional r) (snd ?a))
      = kids (case SecretRef e of None \<Rightarrow> (fst ?b, snd ?b)
              | Some r \<Rightarrow> addRef f (fst ?b) SecGVR (FQN cl ns (ref_Name r)) (ref_Optional r) (snd ?b))"
    using addRef_kids[OF c1] c1 w1 by (simp add: kids_def split: option.splits)
  then show ?thesis by (simp add: envFrom_body_def split_beta)
qed

lemma foldl_env_body:
  "kids pw = kids pw' \<Longrightarrow>
   kids (foldl (env_body cl f ns) pw es) = kids (foldl (env_body cl f ns) pw' es)"
proof (induction es arbitrary: pw pw')
  case Nil
  then show ?case by simp
next
  case (Cons e es)
  show ?case unfolding foldl_Cons by (rule Cons.IH[OF env_body_kids[OF Cons.prems]])
qed

lemma foldl_envFrom_body:
  "kids pw = kids pw' \<Longrightarrow>
   kids (foldl (envFrom_body cl f ns) pw es) = kids (foldl (envFrom_body cl f ns) pw' es)"
proof (induction es arbitrary: pw pw')
  case Nil
  then show ?case by simp
next
  case (Cons e es)
  show ?case unfolding foldl_Cons by (rule Cons.IH[OF envFrom_body_kids[OF Cons.prems]])
qed

lemma foldl_env_body_identity:
  "identity (fst (foldl (env_body cl f ns) pw es)) = identity (fst pw)"
  by (induction es arbitrary: pw) (simp_all add: env_body_identity)

lemma foldl_envFrom_body_identity:
  "identity (fst (foldl (envFrom_body cl f ns) pw es)) = identity (fst pw)"
  by (induction es arbitrary: pw) (simp_all add: envFrom_body_identity)

lemma envRefs_kids:
  "Children p = Children p' \<Longrightarrow>
   kids (envRefs cl f p ns co w) = kids (envRefs cl f p' ns co w)"
  unfolding envRefs_def
  by (intro foldl_envFrom_body foldl_env_body) (simp add: kids_def)

lemma envRefs_identity: "identity (fst (envRefs cl f p ns co w)) = identity p"
  by (simp add: envRefs_def foldl_envFrom_body_identity foldl_env_body_identity)

lemma addRef_id_set:
  "identity ` set (Children (fst (addRef f p gvr id' optional w)))
     = insert (gvr, id') (identity ` set (Children p))"
proof -
  have "set (map identity (Children (fst (addRef f p gvr id' optional w))))
      = set (if (gvr, id') \<in> set (map identity (Children p)) then map identity (Children p)
             else map identity (Children p) @ [(gvr, id')])"
    by (simp only: addRef_ids)
  then show ?thesis by (auto split: if_splits)
qed

lemma secretRefs_id_set:
  "identity ` set (Children (fst (secretRefs cl f p ns ref w)))
     = identity ` set (Children p) \<union> set (ref_identity cl ns SecGVR ref)"
  by (cases ref) (simp_all add: secretRefs_def ref_identity_def addRef_id_set)

lemma configMapRefs_id_set:
  "identity ` set (Children (fst (configMapRefs cl f p ns ref w)))
     = identity ` set (Children p) \<union> set (ref_identity cl ns CmGVR ref)"
  by (cases ref) (simp_all add: configMapRefs_def ref_identity_def addRef_id_set)

lemma secretRefs_distinct:
  assumes "distinct (map identity (Children p))"
  shows "distinct (map identity (Children (fst (secretRefs cl f p ns ref w))))"
proof (cases ref)
  case None
  with assms show ?thesis by (simp add: secretRefs_def)
next
  case (Some r)
  show ?thesis unfolding Some secretRefs_def option.case by (rule addRef_distinct[OF assms])
qed

lemma configMapRefs_distinct:
  assumes "distinct (map identity (Children p))"
  shows "distinct (map identity (Children (fst (configMapRefs cl f p ns ref w))))"
proof (cases ref)
  case None
  with assms show ?thesis by (simp add: configMapRefs_def)
next
  case (Some r)
  show ?thesis unfolding Some configMapRefs_def option.case by (rule addRef_distinct[OF assms])
qed

lemma env_body_id_set:
  "identity ` set (Children (fst (env_body cl f ns pw e)))
     = identity ` set (Children (fst pw)) \<union> set (env_references cl ns e)"
  by (cases "ValueFrom e")
     (simp_all add: env_body_def env_references_def split_beta secretRefs_id_set
        configMapRefs_id_set Un_assoc)

lemma env_body_distinct:
  assumes "distinct (map identity (Children (fst pw)))"
  shows "distinct (map identity (Children (fst (env_body cl f ns pw e))))"
proof (cases "ValueFrom e")
  case None
  with assms show ?thesis by (simp add: env_body_def)
next
  case (Some vf)
  have "distinct (map identity (Children (fst (configMapRefs cl f
      (fst (secretRefs cl f (fst pw) ns (SecretKeyRef vf) (snd pw))) ns (ConfigMapKeyRef vf)
      (snd (secretRefs cl f (fst pw) ns (SecretKeyRef vf) (snd pw)))))))"
    by (rule configMapRefs_distinct[OF secretRefs_distinct[OF assms]])
  then show ?thesis by (simp only: env_body_def Some option.case Let_def split_beta)
qed

lemma envFrom_body_id_set:
  "identity ` set (Children (fst (envFrom_body cl f ns pw e)))
     = identity ` set (Children (fst pw)) \<union> set (envFrom_references cl ns e)"
  by (cases "ConfigMapRef e"; cases "SecretRef e")
     (auto simp: envFrom_body_def envFrom_references_def ref_identity_def addRef_id_set split_beta)

lemma envFrom_body_distinct:
  assumes "distinct (map identity (Children (fst pw)))"
  shows "distinct (map identity (Children (fst (envFrom_body cl f ns pw e))))"
proof -
  let ?a = "case ConfigMapRef e of None \<Rightarrow> pw
            | Some r \<Rightarrow> addRef f (fst pw) CmGVR (FQN cl ns (ref_Name r)) (ref_Optional r) (snd pw)"
  have a: "distinct (map identity (Children (fst ?a)))"
  proof (cases "ConfigMapRef e")
    case None
    then show ?thesis using assms by simp
  next
    case (Some r)
    show ?thesis unfolding Some option.case by (rule addRef_distinct[OF assms])
  qed
  have "distinct (map identity (Children (fst (case SecretRef e of None \<Rightarrow> (fst ?a, snd ?a)
          | Some r \<Rightarrow> addRef f (fst ?a) SecGVR (FQN cl ns (ref_Name r)) (ref_Optional r) (snd ?a)))))"
  proof (cases "SecretRef e")
    case None
    then show ?thesis using a by simp
  next
    case (Some r)
    show ?thesis unfolding Some option.case by (rule addRef_distinct[OF a])
  qed
  then show ?thesis by (simp only: envFrom_body_def Let_def split_beta)
qed

lemma foldl_env_body_id_set:
  "identity ` set (Children (fst (foldl (env_body cl f ns) pw es)))
     = identity ` set (Children (fst pw)) \<union> set (concat (map (env_references cl ns) es))"
  by (induction es arbitrary: pw) (simp_all add: env_body_id_set Un_assoc)

lemma foldl_envFrom_body_id_set:
  "identity ` set (Children (fst (foldl (envFrom_body cl f ns) pw es)))
     = identity ` set (Children (fst pw)) \<union> set (concat (map (envFrom_references cl ns) es))"
  by (induction es arbitrary: pw) (simp_all add: envFrom_body_id_set Un_assoc)

lemma foldl_env_body_distinct:
  "distinct (map identity (Children (fst pw))) \<Longrightarrow>
   distinct (map identity (Children (fst (foldl (env_body cl f ns) pw es))))"
proof (induction es arbitrary: pw)
  case Nil
  then show ?case by simp
next
  case (Cons e es)
  show ?case unfolding foldl_Cons by (rule Cons.IH[OF env_body_distinct[OF Cons.prems]])
qed

lemma foldl_envFrom_body_distinct:
  "distinct (map identity (Children (fst pw))) \<Longrightarrow>
   distinct (map identity (Children (fst (foldl (envFrom_body cl f ns) pw es))))"
proof (induction es arbitrary: pw)
  case Nil
  then show ?case by simp
next
  case (Cons e es)
  show ?case unfolding foldl_Cons by (rule Cons.IH[OF envFrom_body_distinct[OF Cons.prems]])
qed

lemma envRefs_id_set:
  "identity ` set (Children (fst (envRefs cl f p ns co w)))
     = identity ` set (Children p) \<union> set (references cl ns co)"
  by (simp add: envRefs_def foldl_envFrom_body_id_set foldl_env_body_id_set references_def
        Un_assoc)

lemma envRefs_distinct:
  assumes "distinct (map identity (Children p))"
  shows "distinct (map identity (Children (fst (envRefs cl f p ns co w))))"
  unfolding envRefs_def
  by (rule foldl_envFrom_body_distinct[OF foldl_env_body_distinct]) (simp add: assms)

text \<open>
  Claim C7. When \<^verbatim>\<open>Render\<close> succeeds it attaches to the parent one node for the
  container, whose own id is built from the namespace argument. The children of that node
  are the references of the container and nothing else: their identities are exactly the
  kinds of the references with the ids that \<^verbatim>\<open>client.FQN\<close> builds from the namespace
  component of the parent's id and the names the references give, each once. The
  namespace argument plays no part in them: called with any other namespace argument,
  \<^verbatim>\<open>Render\<close> succeeds as well, attaches a node with the same children and leaves the same
  world.
\<close>

theorem Render_parent_namespace:
  assumes "Render cl ctx ns ob w = (Returned None, ctx', w')"
  shows "\<exists>parent root co container.
           ob = ContainerResV co \<and> Container co = Some container
           \<and> ctx KeyParent = TreeNodeV (Some parent)
           \<and> ctx' = ctx(KeyParent := TreeNodeV (Some (Add parent root)))
           \<and> identity root = (CoGVR, FQN cl ns (Name container))
           \<and> identity ` set (Children root)
                = set (references cl (fst (Namespaced cl (ID parent))) container)
           \<and> distinct (map identity (Children root))
           \<and> (\<forall>ns2. \<exists>root2.
                  Render cl ctx ns2 ob w
                    = (Returned None, ctx(KeyParent := TreeNodeV (Some (Add parent root2))), w')
                  \<and> Children root2 = Children root)"
proof (cases rule: Render_cases[where ob=ob and ctx=ctx])
  case mismatch
  with assms show ?thesis by (simp add: Render_mismatch)
next
  case (no_factory co)
  with assms show ?thesis by (simp add: Render_no_factory)
next
  case (nil_container co f)
  with assms show ?thesis by (simp add: Render_nil_container[where ctx=ctx])
next
  case (no_parent co f container)
  with assms show ?thesis by (simp add: Render_no_parent[where ctx=ctx])
next
  case (nil_parent co f container)
  with assms show ?thesis by (simp add: Render_nil_parent[where ctx=ctx])
next
  case (ok co f container parent)
  let ?pns = "fst (Namespaced cl (ID parent))"
  let ?r = "\<lambda>n. envRefs cl f (NewTreeNode CoGVR (FQN cl n (Name container))) ?pns container w"
  have R: "\<And>n. Render cl ctx n ob w
             = (Returned None, ctx(KeyParent := TreeNodeV (Some (Add parent (fst (?r n))))),
                snd (?r n))"
    unfolding ok(1) by (rule Render_ok[where ctx=ctx, OF ok(2) ok(3) ok(4)])
  from assms R[of ns]
  have c': "ctx' = ctx(KeyParent := TreeNodeV (Some (Add parent (fst (?r ns)))))"
    and w': "w' = snd (?r ns)" by simp_all
  have i: "identity (fst (?r ns)) = (CoGVR, FQN cl ns (Name container))"
    by (simp add: envRefs_identity) (simp add: identity_def NewTreeNode_def)
  have s: "identity ` set (Children (fst (?r ns))) = set (references cl ?pns container)"
    by (simp add: envRefs_id_set) (simp add: NewTreeNode_def)
  have d: "distinct (map identity (Children (fst (?r ns))))"
    by (rule envRefs_distinct) (simp add: NewTreeNode_def)
  have k: "\<And>n. kids (?r n) = kids (?r ns)"
    by (rule envRefs_kids) (simp add: NewTreeNode_def)
  have "\<forall>ns2. \<exists>root2.
          Render cl ctx ns2 ob w
            = (Returned None, ctx(KeyParent := TreeNodeV (Some (Add parent root2))), w')
          \<and> Children root2 = Children (fst (?r ns))"
  proof
    fix ns2
    from k[of ns2] have "Children (fst (?r ns2)) = Children (fst (?r ns))"
      and "snd (?r ns2) = w'" by (simp_all add: kids_def w')
    with R[of ns2] show "\<exists>root2.
          Render cl ctx ns2 ob w
            = (Returned None, ctx(KeyParent := TreeNodeV (Some (Add parent root2))), w')
          \<and> Children root2 = Children (fst (?r ns))"
      by auto
  qed
  with ok(1) ok(3) ok(4) c' i s d show ?thesis by blast
qed

text \<open>
  Claim C7 at concrete inputs: the container of the spec's end-to-end example rendered
  under the parent \<^verbatim>\<open>prod/web-0\<close> with the namespace argument \<^verbatim>\<open>other\<close>. The node of the
  container is \<^verbatim>\<open>other/web\<close>; its children are the secret \<^verbatim>\<open>prod/db-pass\<close>, missing, and the
  config map \<^verbatim>\<open>prod/app-cfg\<close>, found.
\<close>

theorem Render_parent_namespace_witness:
  "fst (Render slash_client example_ctx ''other''
          (ContainerResV \<lparr>Container = Some example_container\<rparr>) empty_world) = Returned None
   \<and> (case fst (snd (Render slash_client example_ctx ''other''
                       (ContainerResV \<lparr>Container = Some example_container\<rparr>) empty_world))
               KeyParent of
         TreeNodeV (Some p) \<Rightarrow>
           map (\<lambda>c. (ID c, map (\<lambda>k. (identity k, Extras k StatusKey)) (Children c))) (Children p)
       | _ \<Rightarrow> [])
     = [(''other/web'', [((SecGVR, ''prod/db-pass''), Some MissingRefStatus),
                         ((CmGVR, ''prod/app-cfg''), Some OkStatus)])]
   \<and> references slash_client ''prod'' example_container
     = [(SecGVR, ''prod/db-pass''), (CmGVR, ''prod/app-cfg'')]"
proof -
  let ?R = "Render slash_client example_ctx ''other''
              (ContainerResV \<lparr>Container = Some example_container\<rparr>) empty_world"
  have f: "example_ctx KeyFactory = FactoryV example_factory"
    and p: "example_ctx KeyParent
              = TreeNodeV (Some (NewTreeNode (OtherGVR ''v1/pods'') ''prod/web-0''))"
    by (simp_all add: example_ctx_def)
  have c: "Container \<lparr>Container = Some example_container\<rparr> = Some example_container"
    by simp
  have n: "fst (Namespaced slash_client ''prod/web-0'') = ''prod''"
    by (simp add: slash_client_def)
  have q: "FQN slash_client ''prod'' ''db-pass'' = ''prod/db-pass''"
    "FQN slash_client ''prod'' ''app-cfg'' = ''prod/app-cfg''"
    "FQN slash_client ''other'' ''web'' = ''other/web''"
    by (simp_all add: slash_client_def)
  have e: "envRefs slash_client example_factory (NewTreeNode CoGVR ''other/web'') ''prod''
             example_container empty_world
           = (TreeNode CoGVR ''other/web''
                [TreeNode SecGVR ''prod/db-pass'' [] [StatusKey \<mapsto> MissingRefStatus],
                 TreeNode CmGVR ''prod/app-cfg'' [] [StatusKey \<mapsto> OkStatus]] Map.empty,
              \<lparr>slog = [Log Warn ''Missing ref''
                         [(slogs_GVR, AGVR SecGVR), (slogs_ID, AString ''prod/db-pass'')]],
               gets = [(SecGVR, ''prod/db-pass'', True, Everything),
                       (CmGVR, ''prod/app-cfg'', True, Everything)],
               notified = []\<rparr>)"
    by (simp add: envRefs_def env_body_def envFrom_body_def secretRefs_def configMapRefs_def
          addRef_def Find_def validate_def NewTreeNode_def Add_def set_Extras_def slog_write_def
          example_factory_def example_container_def empty_world_def q)
  have r: "?R = (Returned None, fst (snd ?R), snd (snd ?R))"
    by (simp add: Render_ok[where ctx=example_ctx, OF f c p])
  have v: "fst ?R = Returned None
    \<and> (case fst (snd ?R) KeyParent of
         TreeNodeV (Some p) \<Rightarrow>
           map (\<lambda>c. (ID c, map (\<lambda>k. (identity k, Extras k StatusKey)) (Children c))) (Children p)
       | _ \<Rightarrow> [])
     = [(''other/web'', [((SecGVR, ''prod/db-pass''), Some MissingRefStatus),
                         ((CmGVR, ''prod/app-cfg''), Some OkStatus)])]"
    by (simp add: Render_ok[where ctx=example_ctx, OF f c p]
          example_container_def[THEN arg_cong, of Name])
       (simp add: NewTreeNode_def n q e[unfolded NewTreeNode_def] Add_def identity_def)
  have x: "references slash_client ''prod'' example_container
     = [(SecGVR, ''prod/db-pass''), (CmGVR, ''prod/app-cfg'')]"
    by (simp add: references_def env_references_def envFrom_references_def ref_identity_def
          example_container_def q)
  from r Render_parent_namespace [OF r] v x show ?thesis by blast
qed

section \<open>Properties of the registry\<close>

subsection \<open>Notifying the listeners\<close>

lemma fire_one_notified:
  "notified (fire_one e v w gvr) =
     notified w @ (case listeners v gvr of
                     None \<Rightarrow> []
                   | Some l \<Rightarrow>
                       [(l, getVS (regexp_Compile e) v (range_views e gvr) gvr (GetNamespace l))])"
  by (simp add: fire_one_def ViewSettingsChanged_def slog_write_def split: option.splits)

lemma foldl_fire_one_notified:
  "notified (foldl (fire_one e v) w gs) =
     notified w @ concat (map (\<lambda>gvr. case listeners v gvr of
                            None \<Rightarrow> []
                          | Some l \<Rightarrow>
                              [(l, getVS (regexp_Compile e) v (range_views e gvr) gvr
                                     (GetNamespace l))]) gs)"
proof (induction gs arbitrary: w)
  case Nil
  then show ?case by simp
next
  case (Cons g gs)
  show ?case by (simp only: foldl_Cons Cons.IH fire_one_notified) simp
qed

lemma fireConfigChanged_notified:
  "notified (fireConfigChanged e v w) = notified w @ notification_round e v"
  by (simp only: fireConfigChanged_def notification_round_def foldl_fire_one_notified)

lemma notification_round_enumerates:
  assumes "enumerates (range_listeners e) (listeners v)"
  shows "notification_round e v =
     map (\<lambda>gvr. (the (listeners v gvr),
                  getVS (regexp_Compile e) v (range_views e gvr) gvr
                    (GetNamespace (the (listeners v gvr)))))
       (range_listeners e)"
proof -
  have "\<And>gs. set gs \<subseteq> dom (listeners v) \<Longrightarrow>
     concat (map (\<lambda>gvr. case listeners v gvr of
                            None \<Rightarrow> []
                          | Some l \<Rightarrow>
                              [(l, getVS (regexp_Compile e) v (range_views e gvr) gvr
                                     (GetNamespace l))]) gs)
     = map (\<lambda>gvr. (the (listeners v gvr),
                  getVS (regexp_Compile e) v (range_views e gvr) gvr
                    (GetNamespace (the (listeners v gvr))))) gs"
  proof -
    fix gs show "set gs \<subseteq> dom (listeners v) \<Longrightarrow>
     concat (map (\<lambda>gvr. case listeners v gvr of
                            None \<Rightarrow> []
                          | Some l \<Rightarrow>
                              [(l, getVS (regexp_Compile e) v (range_views e gvr) gvr
                                     (GetNamespace l))]) gs)
     = map (\<lambda>gvr. (the (listeners v gvr),
                  getVS (regexp_Compile e) v (range_views e gvr) gvr
                    (GetNamespace (the (listeners v gvr))))) gs"
      by (induction gs) auto
  qed
  moreover from assms have "set (range_listeners e) \<subseteq> dom (listeners v)"
    by (simp add: enumerates_def)
  ultimately show ?thesis by (simp only: notification_round_def)
qed

text \<open>
  Claim C8. \<^verbatim>\<open>AddListener\<close> registers the listener under its kind, in place of any listener
  registered there before, leaves the views as they are, and runs one round of
  notifications at once: the iteration over the listeners visits every registered kind
  exactly once, and the listener of each kind, not only the new one, receives one
  notification with what \<^verbatim>\<open>getVS\<close> returns for that kind and the namespace that listener
  reports, a setting or none.
\<close>

theorem AddListener_spec:
  "listeners (fst (AddListener e v gvr l w)) = (listeners v)(gvr \<mapsto> l)
   \<and> Views (fst (AddListener e v gvr l w)) = Views v
   \<and> notified (snd (AddListener e v gvr l w))
       = notified w @ notification_round e (fst (AddListener e v gvr l w))
   \<and> (enumerates (range_listeners e) ((listeners v)(gvr \<mapsto> l)) \<longrightarrow>
        notification_round e (fst (AddListener e v gvr l w))
          = map (\<lambda>g. (the (((listeners v)(gvr \<mapsto> l)) g),
                       getVS (regexp_Compile e) (fst (AddListener e v gvr l w)) (range_views e g) g
                         (GetNamespace (the (((listeners v)(gvr \<mapsto> l)) g)))))
              (range_listeners e))"
proof -
  let ?v = "v\<lparr>listeners := (listeners v)(gvr \<mapsto> l)\<rparr>"
  have a: "AddListener e v gvr l w = (?v, fireConfigChanged e ?v w)"
    by (simp add: AddListener_def Let_def)
  have b: "enumerates (range_listeners e) ((listeners v)(gvr \<mapsto> l)) \<longrightarrow>
        notification_round e ?v
          = map (\<lambda>g. (the (((listeners v)(gvr \<mapsto> l)) g),
                       getVS (regexp_Compile e) ?v (range_views e g) g
                         (GetNamespace (the (((listeners v)(gvr \<mapsto> l)) g)))))
              (range_listeners e)"
    using notification_round_enumerates[of e ?v] by simp
  show ?thesis
    unfolding a fst_conv snd_conv using b
    by (simp add: fireConfigChanged_notified)
qed

text \<open>
  Claim C8 at concrete inputs: a second listener, for \<^verbatim>\<open>Node\<close>, is added to a registry that
  holds a listener for \<^verbatim>\<open>Pod\<close> in \<^verbatim>\<open>kube-system\<close> and a view under the key \<^verbatim>\<open>Pod@kube-system\<close>;
  both listeners are notified, the old one with that view and the new one with none.
\<close>

theorem AddListener_spec_witness:
  "enumerates
     (range_listeners (example_env\<lparr>range_listeners := [''Pod'', ''Node''],
                                   range_views := (\<lambda>gvr. [''Pod@kube-system''])\<rparr>))
     ((listeners (example_view\<lparr>Views := [''Pod@kube-system'' \<mapsto> vs_sys]\<rparr>))
        (''Node'' \<mapsto> Listener ''node-table'' []))
   \<and> notified (snd (AddListener
                      (example_env\<lparr>range_listeners := [''Pod'', ''Node''],
                                    range_views := (\<lambda>gvr. [''Pod@kube-system''])\<rparr>)
                      (example_view\<lparr>Views := [''Pod@kube-system'' \<mapsto> vs_sys]\<rparr>)
                      ''Node'' (Listener ''node-table'' []) empty_world))
     = [(Listener ''pod-table'' ''kube-system'', Some vs_sys),
        (Listener ''node-table'' [], None)]"
proof -
  let ?e = "example_env\<lparr>range_listeners := [''Pod'', ''Node''],
                        range_views := (\<lambda>gvr. [''Pod@kube-system''])\<rparr>"
  let ?v = "example_view\<lparr>Views := [''Pod@kube-system'' \<mapsto> vs_sys]\<rparr>"
  have h: "enumerates (range_listeners ?e)
             ((listeners ?v)(''Node'' \<mapsto> Listener ''node-table'' []))"
    by (auto simp: enumerates_def example_view_def)
  have g1: "getVS (regexp_Compile ?e) (fst (AddListener ?e ?v ''Node'' (Listener ''node-table'' [])
              empty_world)) (range_views ?e ''Pod'') ''Pod'' ''kube-system'' = Some vs_sys"
    by (simp add: getVS_def example_env_def HasPrefix_def AddListener_def Let_def index_Views_def)
  have g2: "getVS (regexp_Compile ?e) (fst (AddListener ?e ?v ''Node'' (Listener ''node-table'' [])
              empty_world)) (range_views ?e ''Node'') ''Node'' [] = None"
    by (simp add: getVS_def example_env_def HasPrefix_def AddListener_def Let_def)
  show ?thesis
    using h g1 g2
      AddListener_spec [of ?e ?v "''Node''" "Listener ''node-table'' []" empty_world]
    by (simp add: example_view_def empty_world_def)
qed


subsection \<open>Loading the views\<close>

lemma Contains_prefix: "prefix p s \<Longrightarrow> Contains s p"
  by (cases s) simp_all

lemma Contains_append: "Contains (a @ p @ b) p"
proof (induction a)
  case Nil
  show ?case by (rule Contains_prefix) simp
next
  case (Cons x a)
  then show ?case by simp
qed

lemma Load_missing:
  "os_Stat e path = Some ErrNotExist \<Longrightarrow> Load e v path w = (None, v, w)"
  by (simp add: Load_def)

lemma Load_unreadable:
  "os_Stat e path \<noteq> Some ErrNotExist \<Longrightarrow> os_ReadFile e path = Inl (opn, err) \<Longrightarrow>
   Load e v path w = (Some (PathError opn path err), v, w)"
  by (cases "os_Stat e path") (simp_all add: Load_def)

lemma Load_unparsable:
  "os_Stat e path \<noteq> Some ErrNotExist \<Longrightarrow> os_ReadFile e path = Inr bb \<Longrightarrow>
   yaml_Unmarshal e bb = Inl err \<Longrightarrow>
   Load e v path w =
     (Some (YamlError err), v,
      case Validate e bb of
        Some verr \<Rightarrow>
          slog_write (Log Warn ''Validation failed. Please update your config and restart!''
                        [(slogs_Path, AString path), (slogs_Error, AError verr)]) w
      | None \<Rightarrow> w)"
  by (cases "os_Stat e path") (simp_all add: Load_def Let_def)

lemma Load_parsed:
  "os_Stat e path \<noteq> Some ErrNotExist \<Longrightarrow> os_ReadFile e path = Inr bb \<Longrightarrow>
   yaml_Unmarshal e bb = Inr in_Views \<Longrightarrow>
   Load e v path w =
     (None, v\<lparr>Views := in_Views\<rparr>,
      fireConfigChanged e (v\<lparr>Views := in_Views\<rparr>)
        (case Validate e bb of
           Some verr \<Rightarrow>
             slog_write (Log Warn ''Validation failed. Please update your config and restart!''
                           [(slogs_Path, AString path), (slogs_Error, AError verr)]) w
         | None \<Rightarrow> w))"
  by (cases "os_Stat e path") (simp_all add: Load_def Let_def)

text \<open>
  Claim C5. Whatever the registry holds, \<^verbatim>\<open>Load\<close> on a path that does not exist returns no
  error, leaves the registry (its views and its listeners) as it was, and leaves the
  world as it was: no listener is notified and nothing is logged.
\<close>

theorem Load_not_exist:
  assumes "os_Stat e path = Some ErrNotExist"
  shows "Load e v path w = (None, v, w)"
  using assms by (rule Load_missing)

text \<open>Claim C5 at a concrete input: the path \<^verbatim>\<open>/cfg/missing.yaml\<close> of \<^verbatim>\<open>example_env\<close>.\<close>

theorem Load_not_exist_witness:
  "os_Stat example_env ''/cfg/missing.yaml'' = Some ErrNotExist
   \<and> Load example_env example_view ''/cfg/missing.yaml'' empty_world
       = (None, example_view, empty_world)"
proof -
  have h: "os_Stat example_env ''/cfg/missing.yaml'' = Some ErrNotExist"
    by (simp add: example_env_def)
  from h Load_not_exist [OF h] show ?thesis by simp
qed

text \<open>
  Claim C9. When \<^verbatim>\<open>Load\<close> reads an existing file and the parser rejects its content,
  \<^verbatim>\<open>Load\<close> returns the parser's error, the registry is exactly what it was before the call,
  and no listener has received a notification.
\<close>

theorem Load_parse_error_atomic:
  assumes "os_Stat e path \<noteq> Some ErrNotExist"
    and "os_ReadFile e path = Inr bb"
    and "yaml_Unmarshal e bb = Inl err"
  shows "fst (Load e v path w) = Some (YamlError err)
         \<and> fst (snd (Load e v path w)) = v
         \<and> notified (snd (snd (Load e v path w))) = notified w"
  by (simp add: Load_unparsable[OF assms] slog_write_def split: option.splits)

text \<open>Claim C9 at a concrete input: the path \<^verbatim>\<open>/cfg/broken.yaml\<close> of \<^verbatim>\<open>example_env\<close>.\<close>

theorem Load_parse_error_atomic_witness:
  "os_Stat example_env ''/cfg/broken.yaml'' \<noteq> Some ErrNotExist
   \<and> os_ReadFile example_env ''/cfg/broken.yaml'' = Inr ''views: [''
   \<and> yaml_Unmarshal example_env ''views: [''
       = Inl ''yaml: line 1: did not find expected node content''
   \<and> fst (Load example_env example_view ''/cfg/broken.yaml'' empty_world)
       = Some (YamlError ''yaml: line 1: did not find expected node content'')
   \<and> fst (snd (Load example_env example_view ''/cfg/broken.yaml'' empty_world)) = example_view
   \<and> notified (snd (snd (Load example_env example_view ''/cfg/broken.yaml'' empty_world))) = []"
proof -
  have a: "os_Stat example_env ''/cfg/broken.yaml'' \<noteq> Some ErrNotExist"
    and b: "os_ReadFile example_env ''/cfg/broken.yaml'' = Inr ''views: [''"
    and c: "yaml_Unmarshal example_env ''views: [''
              = Inl ''yaml: line 1: did not find expected node content''"
    by (simp_all add: example_env_def)
  from a b c Load_parse_error_atomic [OF a b c, of example_view empty_world]
  show ?thesis by (simp add: empty_world_def)
qed

text \<open>
  Claim C4, as the code has it. On a file that exists, \<^verbatim>\<open>Load\<close> fails with the error of
  \<^verbatim>\<open>os.ReadFile\<close>, which names the path, when the file cannot be read, and with the error
  of the parser, as the parser made it from the content, when the content does not parse.
  When the content parses and only the schema validation fails, \<^verbatim>\<open>Load\<close> does not fail: it
  logs one warning with the path and the validation error, replaces the views by the
  parsed ones, and notifies the listeners in one round.
\<close>

theorem Load_existing:
  assumes "os_Stat e path \<noteq> Some ErrNotExist"
  shows "(\<forall>opn err. os_ReadFile e path = Inl (opn, err) \<longrightarrow>
            Load e v path w = (Some (PathError opn path err), v, w)
            \<and> names_path (PathError opn path err) path)
         \<and> (\<forall>bb err. os_ReadFile e path = Inr bb \<and> yaml_Unmarshal e bb = Inl err \<longrightarrow>
              fst (Load e v path w) = Some (YamlError err))
         \<and> (\<forall>bb in_Views verr.
              os_ReadFile e path = Inr bb \<and> yaml_Unmarshal e bb = Inr in_Views
              \<and> Validate e bb = Some verr \<longrightarrow>
              fst (Load e v path w) = None
              \<and> fst (snd (Load e v path w)) = v\<lparr>Views := in_Views\<rparr>
              \<and> slog (snd (snd (Load e v path w)))
                  = slog (fireConfigChanged e (v\<lparr>Views := in_Views\<rparr>)
                      (slog_write
                         (Log Warn ''Validation failed. Please update your config and restart!''
                            [(slogs_Path, AString path), (slogs_Error, AError verr)]) w))
              \<and> notified (snd (snd (Load e v path w)))
                  = notified w @ notification_round e (v\<lparr>Views := in_Views\<rparr>))"
proof -
  have n: "\<And>opn err. names_path (PathError opn path err) path"
    unfolding names_path_def Error_text.simps
    using Contains_append[of "_ @ '' ''" path] by simp
  show ?thesis
    by (auto simp: Load_unreadable[OF assms] Load_unparsable[OF assms] Load_parsed[OF assms] n
          fireConfigChanged_notified slog_write_def)
qed


text \<open>
  Claim C4 as amended, at concrete inputs: \<^verbatim>\<open>/cfg/locked.yaml\<close> cannot be opened,
  \<^verbatim>\<open>/cfg/broken.yaml\<close> does not parse, and \<^verbatim>\<open>/cfg/views.yaml\<close> parses but fails the schema
  validation.
\<close>

theorem Load_existing_witness:
  "Load example_env example_view ''/cfg/locked.yaml'' empty_world
     = (Some (PathError ''open'' ''/cfg/locked.yaml'' ErrPermission), example_view, empty_world)
   \<and> names_path (PathError ''open'' ''/cfg/locked.yaml'' ErrPermission) ''/cfg/locked.yaml''
   \<and> fst (Load example_env example_view ''/cfg/broken.yaml'' empty_world)
       = Some (YamlError ''yaml: line 1: did not find expected node content'')
   \<and> fst (Load example_env example_view ''/cfg/views.yaml'' empty_world) = None
   \<and> fst (snd (Load example_env example_view ''/cfg/views.yaml'' empty_world))
       = example_view\<lparr>Views := [''Pod'' \<mapsto> \<lparr>Columns = [], SortColumn = []\<rparr>]\<rparr>
   \<and> slog (snd (snd (Load example_env example_view ''/cfg/views.yaml'' empty_world)))
       = [Log Warn ''Validation failed. Please update your config and restart!''
            [(slogs_Path, AString ''/cfg/views.yaml''),
             (slogs_Error, AError ''additional property sortColum is not allowed'')]]
   \<and> notified (snd (snd (Load example_env example_view ''/cfg/views.yaml'' empty_world)))
       = [(Listener ''pod-table'' ''kube-system'', None)]"
proof -
  have s: "os_Stat example_env ''/cfg/locked.yaml'' \<noteq> Some ErrNotExist"
    "os_Stat example_env ''/cfg/broken.yaml'' \<noteq> Some ErrNotExist"
    "os_Stat example_env ''/cfg/views.yaml'' \<noteq> Some ErrNotExist"
    by (simp_all add: example_env_def)
  have r: "os_ReadFile example_env ''/cfg/locked.yaml'' = Inl (''open'', ErrPermission)"
    "os_ReadFile example_env ''/cfg/broken.yaml'' = Inr ''views: [''"
    "os_ReadFile example_env ''/cfg/views.yaml'' = Inr ''views: {Pod: {sortColum: AGE}}''"
    by (simp_all add: example_env_def)
  have y: "yaml_Unmarshal example_env ''views: [''
             = Inl ''yaml: line 1: did not find expected node content''"
    "yaml_Unmarshal example_env ''views: {Pod: {sortColum: AGE}}''
       = Inr [''Pod'' \<mapsto> \<lparr>Columns = [], SortColumn = []\<rparr>]"
    "Validate example_env ''views: {Pod: {sortColum: AGE}}''
       = Some ''additional property sortColum is not allowed''"
    by (simp_all add: example_env_def)
  let ?v = "example_view\<lparr>Views := [''Pod'' \<mapsto> \<lparr>Columns = [], SortColumn = []\<rparr>]\<rparr>"
  have n: "notification_round example_env ?v = [(Listener ''pod-table'' ''kube-system'', None)]"
    by (simp add: notification_round_def example_view_def example_env_def getVS_def
          HasPrefix_def)
  have f: "slog (fireConfigChanged example_env ?v
             (slog_write (Log Warn ''Validation failed. Please update your config and restart!''
                [(slogs_Path, AString ''/cfg/views.yaml''),
                 (slogs_Error, AError ''additional property sortColum is not allowed'')])
                empty_world))
           = [Log Warn ''Validation failed. Please update your config and restart!''
                [(slogs_Path, AString ''/cfg/views.yaml''),
                 (slogs_Error, AError ''additional property sortColum is not allowed'')]]"
    by (simp add: fireConfigChanged_def fire_one_def example_view_def example_env_def getVS_def
          HasPrefix_def ViewSettingsChanged_def slog_write_def empty_world_def)
  show ?thesis
    using r y n f
      Load_existing [OF s(1), of example_view empty_world]
      Load_existing [OF s(2), of example_view empty_world]
      Load_existing [OF s(3), of example_view empty_world]
    by (simp add: empty_world_def)
qed

text \<open>
  Claim C4 as worded fails on a file that exists and does not parse: the error \<^verbatim>\<open>Load\<close>
  returns for \<^verbatim>\<open>/cfg/broken.yaml\<close> is the parser's, and its text does not hold the path.
\<close>

theorem Load_parse_error_counterexample:
  "os_Stat example_env ''/cfg/broken.yaml'' = None
   \<and> os_ReadFile example_env ''/cfg/broken.yaml'' = Inr ''views: [''
   \<and> fst (Load example_env example_view ''/cfg/broken.yaml'' empty_world)
       = Some (YamlError ''yaml: line 1: did not find expected node content'')
   \<and> \<not> names_path (YamlError ''yaml: line 1: did not find expected node content'')
         ''/cfg/broken.yaml''"
proof -
  have a: "os_Stat example_env ''/cfg/broken.yaml'' = None"
    and b: "os_ReadFile example_env ''/cfg/broken.yaml'' = Inr ''views: [''"
    and c: "yaml_Unmarshal example_env ''views: [''
              = Inl ''yaml: line 1: did not find expected node content''"
    by (simp_all add: example_env_def)
  have d: "fst (Load example_env example_view ''/cfg/broken.yaml'' empty_world)
       = Some (YamlError ''yaml: line 1: did not find expected node content'')"
    using a b c by (simp add: Load_def Let_def)
  have e: "\<not> names_path (YamlError ''yaml: line 1: did not find expected node content'')
         ''/cfg/broken.yaml''"
    by (simp add: names_path_def)
  from a b d e show ?thesis by simp
qed

end
